theory Spec2Isabelle
  imports Complex_Main "HOL-Library.Sublist" "HOL-Library.Multiset"
begin

section \<open>Strings of the scripts\<close>

text \<open>
  A JavaScript string is a sequence of UTF-16 code units. The model keeps the code units
  below 256 (the Latin-1 range), one \<^typ>\<open>char\<close> each, so \<open>length\<close> is the
  \<open>.length\<close> of the source. On that range \<open>toLowerCase\<close> moves \<open>A..Z\<close> and the
  accented capitals \<open>0xC0..0xDE\<close> (but not the multiplication sign \<open>0xD7\<close>) by 32, and
  the white space of \<open>\s\<close> and of \<open>trim\<close> is TAB, LF, VT, FF, CR, SP and NBSP.
\<close>

definition toLowerChar :: "char \<Rightarrow> char" where
  "toLowerChar c =
     (let n = (of_char c :: nat)
      in if (65 \<le> n \<and> n \<le> 90) \<or> (192 \<le> n \<and> n \<le> 222 \<and> n \<noteq> 215)
         then char_of (n + 32) else c)"

definition toLowerCase :: "string \<Rightarrow> string" where
  "toLowerCase s = map toLowerChar s"

definition isWhiteSpace :: "char \<Rightarrow> bool" where
  "isWhiteSpace c = ((of_char c :: nat) \<in> {9, 10, 11, 12, 13, 32, 160})"

definition trim :: "string \<Rightarrow> string" where
  "trim s = rev (dropWhile isWhiteSpace (rev (dropWhile isWhiteSpace s)))"

fun startsWith :: "string \<Rightarrow> string \<Rightarrow> bool" where
  "startsWith s [] = True"
| "startsWith [] (p # ps) = False"
| "startsWith (c # cs) (p # ps) = (c = p \<and> startsWith cs ps)"

text \<open>\<open>s.includes(p)\<close> of the source: \<open>p\<close> occurs in \<open>s\<close> at some position.\<close>

fun includesStr :: "string \<Rightarrow> string \<Rightarrow> bool" where
  "includesStr [] p = (p = [])"
| "includesStr (c # cs) p = (startsWith (c # cs) p \<or> includesStr cs p)"

text \<open>
  \<open>s.replace(p, r)\<close> with a string pattern: only the first (leftmost) occurrence of
  \<open>p\<close> is replaced. The scripts call it with the replacement \<open>""\<close>, which holds none
  of the \<open>$\<close> patterns.
\<close>

fun replaceFirst :: "string \<Rightarrow> string \<Rightarrow> string \<Rightarrow> string" where
  "replaceFirst p r [] = (if p = [] then r else [])"
| "replaceFirst p r (c # cs) =
     (if startsWith (c # cs) p then r @ drop (length p) (c # cs)
      else c # replaceFirst p r cs)"

text \<open>
  \<open>text.replace(/[\s\n]+/g, " ")\<close>: every maximal run of white space becomes one space.
\<close>

function collapseWhitespace :: "string \<Rightarrow> string" where
  "collapseWhitespace [] = []"
| "collapseWhitespace (c # cs) =
     (if isWhiteSpace c then CHR '' '' # collapseWhitespace (dropWhile isWhiteSpace cs)
      else c # collapseWhitespace cs)"
  by pat_completeness auto
termination
  by (relation "measure length") (auto simp: length_dropWhile_le less_Suc_eq_le)

section \<open>Data model\<close>

text \<open>
  The numbers of the scripts are IEEE doubles, and an embedding is an array of them. The
  type variable \<open>'n\<close> stands for these numbers throughout.
\<close>

record link =
  url :: string

record search_result = link +
  title :: string
  snippet :: string

record 'n source = link +
  text_src :: string
  embedding :: "'n list"

record 'n ranked_source = "'n source" +
  similarity :: 'n

text \<open>A Source is valid when its text is longer than 100 code units.\<close>

definition valid :: "('n, 'a) source_scheme \<Rightarrow> bool" where
  "valid s = (100 < length (text_src s))"

section \<open>Numbers and the engine\<close>

text \<open>
  The model does not fix the arithmetic of the doubles. What the language computes on
  numbers for the scripts is a record of functions that the model takes as a parameter: the
  literal \<open>0\<close>, the four operations, \<open>Math.sqrt\<close>, and \<open>Array.prototype.sort\<close> on
  an array of ranked sources with a comparison function. The comparison \<open>>=\<close> of two
  numbers is there to say what a sorted list is; the scripts do not call it. Nothing is
  assumed about rounding, overflow, underflow, NaN, or the algorithm of the sort: what is
  proved for every engine holds for the one the scripts run on.
\<close>

record 'n engine =
  num_zero :: 'n
  num_add :: "'n \<Rightarrow> 'n \<Rightarrow> 'n"
  num_sub :: "'n \<Rightarrow> 'n \<Rightarrow> 'n"
  num_mul :: "'n \<Rightarrow> 'n \<Rightarrow> 'n"
  num_div :: "'n \<Rightarrow> 'n \<Rightarrow> 'n"
  num_sqrt :: "'n \<Rightarrow> 'n"
  num_ge :: "'n \<Rightarrow> 'n \<Rightarrow> bool"
  array_sort ::
    "('n ranked_source \<Rightarrow> 'n ranked_source \<Rightarrow> 'n) \<Rightarrow> 'n ranked_source list \<Rightarrow> 'n ranked_source list"

section \<open>Cosine similarity\<close>

text \<open>
  \<open>xs.reduce((acc, x, i) => f(acc, x, i), init)\<close>: a left fold that also passes the
  index.
\<close>

definition reduce :: "('b \<Rightarrow> 'a \<Rightarrow> nat \<Rightarrow> 'b) \<Rightarrow> 'b \<Rightarrow> 'a list \<Rightarrow> 'b" where
  "reduce f init xs = foldl (\<lambda>acc (i, x). f acc x i) init (enumerate 0 xs)"

text \<open>
  \<open>cosineSimilarity\<close> of both scripts, on the engine \<open>js\<close>. \<open>vecB[i]\<close> is read only
  after the guard has established that the two lengths agree, so every index is in range.
\<close>

definition cosineSimilarity :: "'n engine \<Rightarrow> 'n list \<Rightarrow> 'n list \<Rightarrow> 'n" where
  "cosineSimilarity js vecA vecB =
     (if length vecA \<noteq> length vecB \<or> length vecA = 0 then num_zero js
      else let dotProduct =
                 reduce (\<lambda>sum a i. num_add js sum (num_mul js a (vecB ! i))) (num_zero js) vecA;
               magA = num_sqrt js
                 (reduce (\<lambda>sum a i. num_add js sum (num_mul js a a)) (num_zero js) vecA);
               magB = num_sqrt js
                 (reduce (\<lambda>sum b i. num_add js sum (num_mul js b b)) (num_zero js) vecB)
           in num_div js dotProduct (num_mul js magA magB))"

text \<open>
  The words of the specification, in the arithmetic of the engine: the dot product of two
  vectors is the sum of the products of their entries, and the magnitude of a vector is the
  square root of the sum of the squares of its entries, each sum taken from the left,
  starting at \<open>0\<close>.
\<close>

definition dot :: "'n engine \<Rightarrow> 'n list \<Rightarrow> 'n list \<Rightarrow> 'n" where
  "dot js a b = foldl (num_add js) (num_zero js) (map (\<lambda>(x, y). num_mul js x y) (zip a b))"

definition magnitude :: "'n engine \<Rightarrow> 'n list \<Rightarrow> 'n" where
  "magnitude js a = num_sqrt js (foldl (num_add js) (num_zero js) (map (\<lambda>x. num_mul js x x) a))"

section \<open>Relevance ranking\<close>

definition withSimilarity :: "'n engine \<Rightarrow> 'n list \<Rightarrow> 'n source \<Rightarrow> 'n ranked_source" where
  "withSimilarity js queryEmbedding s =
     \<lparr>url = url s, text_src = text_src s, embedding = embedding s,
      similarity = cosineSimilarity js queryEmbedding (embedding s)\<rparr>"

text \<open>
  The ranking step of \<open>generateWebAnswer\<close> / \<open>generateAnswer\<close>:
  \<open>sources.map(...).sort((a, b) => b.similarity - a.similarity).slice(0, 3)\<close>.
\<close>

definition rankSources :: "'n engine \<Rightarrow> 'n list \<Rightarrow> 'n source list \<Rightarrow> 'n ranked_source list" where
  "rankSources js queryEmbedding sources =
     take 3 (array_sort js (\<lambda>a b. num_sub js (similarity b) (similarity a))
               (map (withSimilarity js queryEmbedding) sources))"

section \<open>The outside world\<close>

text \<open>
  Every network call and the \<open>ollama pull\<close> subprocess is a request to the outside world.
  A state holds the process-wide flag \<open>modelEnsured\<close> of the embedding module and the
  trace of the requests made so far, oldest first. The world is a record: the engine the
  script runs on, what cheerio extracts from a page, and the reply functions of the
  services; each reply function takes the number of requests made before it, so that the
  same request can be answered differently at different times. Console output is not
  modelled.
\<close>

datatype event =
    SearchReq string
  | PageReq string
  | TagsReq
  | PullCmd
  | EmbedReq string
  | GenerateReq string

record state =
  modelEnsured :: bool
  trace :: "event list"

text \<open>
  How a call ends: it returns a value, it throws (the promise rejects), or the process is
  gone (\<open>Deno.exit(1)\<close>).
\<close>

datatype 'a outcome = Returned 'a state | Thrown state | Exited state

fun ostate :: "'a outcome \<Rightarrow> state" where
  "ostate (Returned _ s) = s"
| "ostate (Thrown s) = s"
| "ostate (Exited s) = s"

fun void :: "'a outcome \<Rightarrow> unit outcome" where
  "void (Returned _ s) = Returned () s"
| "void (Thrown s) = Thrown s"
| "void (Exited s) = Exited s"

definition request :: "event \<Rightarrow> state \<Rightarrow> state" where
  "request e s = s\<lparr>trace := trace s @ [e]\<rparr>"

definition tick :: "state \<Rightarrow> nat" where
  "tick s = length (trace s)"

text \<open>\<open>response.ok\<close>: the status is in the range 200 to 299.\<close>

definition ok :: "nat \<Rightarrow> bool" where
  "ok status = (200 \<le> status \<and> status \<le> 299)"

text \<open>A raw hit of the search engine; \<open>title\<close> and \<open>content\<close> may be missing.\<close>

record raw_hit =
  hit_url :: string
  hit_title :: "string option"
  hit_content :: "string option"

text \<open>
  The search endpoint: the request fails, or a response arrives with a status and a body;
  the body is \<open>None\<close> when it is not JSON or holds no \<open>results\<close> array.
\<close>

datatype search_reply = SearchNetErr | SearchResp nat "raw_hit list option"

text \<open>
  A page: the request fails, it is aborted by the timer after \<open>FETCH_TIMEOUT\<close>, or a
  response arrives with a status and a body (\<open>None\<close> when reading the body fails).
\<close>

datatype page_reply = PageNetErr | PageTimeout | PageResp nat "string option"

text \<open>
  What cheerio finds in a page: the text of the first element matching
  \<open>article, main, .content\<close>, if there is one, and the text of \<open>body\<close>.
\<close>

record document =
  mainContent :: "string option"
  bodyText :: string

text \<open>\<open>/api/tags\<close>: the names of the installed models (\<open>None\<close>: not such a JSON).\<close>

datatype tags_reply = TagsNetErr | TagsResp nat "string list option"

text \<open>\<open>/api/embeddings\<close>: the body is not JSON, or JSON with or without \<open>embedding\<close>.\<close>

datatype 'n embed_body = EmbBadJson | EmbJson "'n list option"

datatype 'n embed_reply = EmbNetErr | EmbResp nat "'n embed_body"

text \<open>
  \<open>/api/generate\<close>: a stream of chunks, each a list of non-blank lines; a line is not
  JSON, or JSON with or without a \<open>response\<close> text. The flag says that reading the
  stream fails after these chunks. The body is \<open>None\<close> when the response has none.
\<close>

datatype gen_line = BadJson | Parsed "string option"

datatype gen_reply = GenNetErr | GenResp nat "(gen_line list list \<times> bool) option"

record 'n env =
  runtime :: "'n engine"
  searchReply :: "nat \<Rightarrow> string \<Rightarrow> search_reply"
  pageReply :: "nat \<Rightarrow> string \<Rightarrow> page_reply"
  cheerioLoad :: "string \<Rightarrow> document option"
  tagsReply :: "nat \<Rightarrow> tags_reply"
  pullReply :: "nat \<Rightarrow> bool"
  embedReply :: "nat \<Rightarrow> string \<Rightarrow> 'n embed_reply"
  generateReply :: "nat \<Rightarrow> string \<Rightarrow> gen_reply"

section \<open>Constants\<close>

definition EMBEDDING_MODEL :: string where
  "EMBEDDING_MODEL = ''nomic-embed-text''"

definition MAX_CONTENT_LENGTH :: nat where
  "MAX_CONTENT_LENGTH = 3000"

definition REQUIRED_LINKS :: nat where
  "REQUIRED_LINKS = 10"

section \<open>Embedding client (embedding.ts)\<close>

text \<open>
  \<open>ensureEmbeddingModelRunning\<close>: every failure inside ends the process. A missing
  model is pulled first.
\<close>

definition ensureEmbeddingModelRunning :: "'n env \<Rightarrow> state \<Rightarrow> unit outcome" where
  "ensureEmbeddingModelRunning world s =
     (let s1 = request TagsReq s in
      case tagsReply world (tick s) of
        TagsNetErr \<Rightarrow> Exited s1
      | TagsResp status body \<Rightarrow>
          if \<not> ok status then Exited s1
          else (case body of
                  None \<Rightarrow> Exited s1
                | Some names \<Rightarrow>
                    if list_ex (\<lambda>name. includesStr name EMBEDDING_MODEL) names
                    then Returned () (s1\<lparr>modelEnsured := True\<rparr>)
                    else let s2 = request PullCmd s1 in
                         if pullReply world (tick s1)
                         then Returned () (s2\<lparr>modelEnsured := True\<rparr>)
                         else Exited s2))"

text \<open>
  \<open>getEmbedding\<close>: a failure of the request itself is caught and gives the empty vector.
\<close>

definition getEmbedding :: "'n env \<Rightarrow> string \<Rightarrow> state \<Rightarrow> 'n list outcome" where
  "getEmbedding world txt s =
     (case (if \<not> modelEnsured s then ensureEmbeddingModelRunning world s
            else Returned () s) of
        Exited s1 \<Rightarrow> Exited s1
      | Thrown s1 \<Rightarrow> Thrown s1
      | Returned _ s1 \<Rightarrow>
          (let s2 = request (EmbedReq txt) s1 in
           case embedReply world (tick s1) txt of
             EmbNetErr \<Rightarrow> Returned [] s2
           | EmbResp status body \<Rightarrow>
               if \<not> ok status then Returned [] s2
               else (case body of
                       EmbBadJson \<Rightarrow> Returned [] s2
                     | EmbJson None \<Rightarrow> Returned [] s2
                     | EmbJson (Some v) \<Rightarrow> Returned v s2)))"

section \<open>Web search client\<close>

definition orEmpty :: "string option \<Rightarrow> string" where
  "orEmpty v = (case v of None \<Rightarrow> [] | Some t \<Rightarrow> t)"

definition toSearchResult :: "raw_hit \<Rightarrow> search_result" where
  "toSearchResult hit =
     \<lparr>url = hit_url hit, title = orEmpty (hit_title hit), snippet = orEmpty (hit_content hit)\<rparr>"

definition searchWeb :: "'n env \<Rightarrow> string \<Rightarrow> state \<Rightarrow> search_result list outcome" where
  "searchWeb world query s =
     (let s1 = request (SearchReq query) s in
      case searchReply world (tick s) query of
        SearchNetErr \<Rightarrow> Thrown s1
      | SearchResp status body \<Rightarrow>
          if \<not> ok status then Thrown s1
          else (case body of
                  None \<Rightarrow> Thrown s1
                | Some hits \<Rightarrow> Returned (map toSearchResult hits) s1))"

section \<open>Page fetcher\<close>

definition emptySource :: "string \<Rightarrow> 'n source" where
  "emptySource u = \<lparr>url = u, text_src = [], embedding = []\<rparr>"

text \<open>
  \<open>fetchPageContent\<close> of both scripts (they differ in the message they print). The
  status of the response is never read. Whatever is thrown inside is caught.
\<close>

definition fetchPageContent :: "'n env \<Rightarrow> string \<Rightarrow> state \<Rightarrow> 'n source outcome" where
  "fetchPageContent world u s =
     (let s1 = request (PageReq u) s in
      case pageReply world (tick s) u of
        PageNetErr \<Rightarrow> Returned (emptySource u) s1
      | PageTimeout \<Rightarrow> Returned (emptySource u) s1
      | PageResp status body \<Rightarrow>
          (case body of
             None \<Rightarrow> Returned (emptySource u) s1
           | Some html \<Rightarrow>
               (case cheerioLoad world html of
                  None \<Rightarrow> Returned (emptySource u) s1
                | Some doc \<Rightarrow>
                    (let txt = (case mainContent doc of Some t \<Rightarrow> t | None \<Rightarrow> bodyText doc);
                         processedText = take MAX_CONTENT_LENGTH (collapseWhitespace txt)
                     in case getEmbedding world processedText s1 of
                          Returned emb s2 \<Rightarrow>
                            Returned \<lparr>url = u, text_src = processedText, embedding = emb\<rparr> s2
                        | Thrown s2 \<Rightarrow> Returned (emptySource u) s2
                        | Exited s2 \<Rightarrow> Exited s2))))"

section \<open>Answer generator\<close>

definition generalPrompt :: "string \<Rightarrow> string" where
  "generalPrompt query =
     ''\<newline>    [SYSTEM] You are an AI assistant. Answer the following question based on your knowledge.\<newline>\<newline>    Question: ''
     @ query @ ''\<newline>\<newline>    Answer (concise):''"

fun join :: "string \<Rightarrow> string list \<Rightarrow> string" where
  "join sep [] = []"
| "join sep [x] = x"
| "join sep (x # y # ys) = x @ sep @ join sep (y # ys)"

definition webPrompt :: "string \<Rightarrow> 'n ranked_source list \<Rightarrow> string" where
  "webPrompt query ranked =
     ''\<newline>    [SYSTEM] You are an AI assistant. Use the following web content to answer the query accurately.\<newline>\<newline>    Question: ''
     @ query @ ''\<newline>\<newline>    Web Context:\<newline>    ''
     @ join ''\<newline>\<newline>''
         (map (\<lambda>source. ''[Source: '' @ url source @ '']\<newline>'' @ text_src source) ranked)
     @ ''\<newline>\<newline>    Answer (concise, cite sources):''"

fun lineResponse :: "gen_line \<Rightarrow> string" where
  "lineResponse BadJson = []"
| "lineResponse (Parsed None) = []"
| "lineResponse (Parsed (Some r)) = r"

text \<open>
  \<open>generateStreamingAnswer\<close>: a failed request, a status that is not ok, a missing body
  and a failed read all throw; otherwise the answer is the responses in arrival order.
\<close>

definition generateStreamingAnswer :: "'n env \<Rightarrow> string \<Rightarrow> state \<Rightarrow> string outcome" where
  "generateStreamingAnswer world p s =
     (let s1 = request (GenerateReq p) s in
      case generateReply world (tick s) p of
        GenNetErr \<Rightarrow> Thrown s1
      | GenResp status body \<Rightarrow>
          if \<not> ok status then Thrown s1
          else (case body of
                  None \<Rightarrow> Thrown s1
                | Some (chunks, readFails) \<Rightarrow>
                    if readFails then Thrown s1
                    else Returned (concat (map (\<lambda>chunk. concat (map lineResponse chunk)) chunks)) s1))"

definition generateGeneralAnswer :: "'n env \<Rightarrow> string \<Rightarrow> state \<Rightarrow> string outcome" where
  "generateGeneralAnswer world query s = generateStreamingAnswer world (generalPrompt query) s"

text \<open>\<open>generateWebAnswer\<close> of the trigger script.\<close>

definition generateWebAnswer :: "'n env \<Rightarrow> string \<Rightarrow> 'n source list \<Rightarrow> state \<Rightarrow> string outcome" where
  "generateWebAnswer world query sources s =
     (case getEmbedding world query s of
        Exited s1 \<Rightarrow> Exited s1
      | Thrown s1 \<Rightarrow> Thrown s1
      | Returned queryEmbedding s1 \<Rightarrow>
          generateStreamingAnswer world (webPrompt query (rankSources (runtime world) queryEmbedding sources)) s1)"

text \<open>
  \<open>generateAnswer\<close> of the always-search script: the same ranking and prompt, with the
  streaming request written out in its body.
\<close>

definition generateAnswer :: "'n env \<Rightarrow> string \<Rightarrow> 'n source list \<Rightarrow> state \<Rightarrow> string outcome" where
  "generateAnswer world query sources s =
     (case getEmbedding world query s of
        Exited s1 \<Rightarrow> Exited s1
      | Thrown s1 \<Rightarrow> Thrown s1
      | Returned queryEmbedding s1 \<Rightarrow>
          (let p = webPrompt query (rankSources (runtime world) queryEmbedding sources);
               s2 = request (GenerateReq p) s1 in
           case generateReply world (tick s1) p of
             GenNetErr \<Rightarrow> Thrown s2
           | GenResp status body \<Rightarrow>
               if \<not> ok status then Thrown s2
               else (case body of
                       None \<Rightarrow> Thrown s2
                     | Some (chunks, readFails) \<Rightarrow>
                         if readFails then Thrown s2
                         else Returned (concat (map (\<lambda>chunk. concat (map lineResponse chunk)) chunks)) s2)))"

section \<open>Source collection\<close>

text \<open>
  The collecting loop of the trigger script, with the quota \<open>REQUIRED_LINKS\<close> as the
  parameter \<open>required\<close>:
  \<^verbatim>\<open>while (sources.length < REQUIRED_LINKS && currentIndex < results.length)\<close>.
  The fetch stands in a \<open>try\<close> of its own, whose handler only skips the link. The loop
  returns its two variables, the sources and \<open>currentIndex\<close>.
\<close>

function collectLoop ::
  "'n env \<Rightarrow> nat \<Rightarrow> search_result list \<Rightarrow> 'n source list \<Rightarrow> nat \<Rightarrow> state \<Rightarrow> ('n source list \<times> nat) outcome"
where
  "collectLoop world required results sources currentIndex s =
     (if length sources < required \<and> currentIndex < length results then
        (case fetchPageContent world (url (results ! currentIndex)) s of
           Exited s' \<Rightarrow> Exited s'
         | r \<Rightarrow>
            (let sources' =
                   (case r of
                      Returned content _ \<Rightarrow>
                        if 100 < length (text_src content) then sources @ [content] else sources
                    | _ \<Rightarrow> sources);
                 s' = ostate r;
                 currentIndex' = currentIndex + 1
             in if length results \<le> currentIndex' \<and> length sources' < required
                then Returned (sources', currentIndex') s'
                else collectLoop world required results sources' currentIndex' s'))
      else Returned (sources, currentIndex) s)"
  by pat_completeness auto
termination
  by (relation "measure (\<lambda>(world, required, results, sources, currentIndex, s).
        length results - currentIndex)") auto

definition collectSources :: "'n env \<Rightarrow> nat \<Rightarrow> search_result list \<Rightarrow> state \<Rightarrow> ('n source list \<times> nat) outcome" where
  "collectSources world required results s = collectLoop world required results [] 0 s"

text \<open>
  The always-search script fetches the links of \<open>results.slice(0, 10)\<close>, all of them, in a
  \<open>for\<close> loop with no handler of its own.
\<close>

fun fetchLinks :: "'n env \<Rightarrow> search_result list \<Rightarrow> 'n source list \<Rightarrow> state \<Rightarrow> 'n source list outcome" where
  "fetchLinks world [] sources s = Returned sources s"
| "fetchLinks world (l # linksToFetch) sources s =
     (case fetchPageContent world (url l) s of
        Exited s' \<Rightarrow> Exited s'
      | Thrown s' \<Rightarrow> Thrown s'
      | Returned content s' \<Rightarrow>
          fetchLinks world linksToFetch
            (if 100 < length (text_src content) then sources @ [content] else sources) s')"

definition collectSlice :: "'n env \<Rightarrow> search_result list \<Rightarrow> state \<Rightarrow> 'n source list outcome" where
  "collectSlice world results s = fetchLinks world (take 10 results) [] s"

section \<open>Orchestrator\<close>

text \<open>
  The loop of both scripts ends on \<open>!query || query.toLowerCase() === "exit"\<close>, where
  \<open>query\<close> is what \<open>prompt\<close> returned: a line, or \<open>null\<close>.
\<close>

definition exitRequested :: "string option \<Rightarrow> bool" where
  "exitRequested query =
     (case query of None \<Rightarrow> True | Some q \<Rightarrow> q = [] \<or> toLowerCase q = ''exit'')"

text \<open>The \<open>try\<close> block of the trigger script.\<close>

definition searchAndAnswer :: "'n env \<Rightarrow> string \<Rightarrow> state \<Rightarrow> unit outcome" where
  "searchAndAnswer world query s =
     (case searchWeb world (trim (replaceFirst ''search'' [] query)) s of
        Exited s1 \<Rightarrow> Exited s1
      | Thrown s1 \<Rightarrow> Thrown s1
      | Returned results s1 \<Rightarrow>
          (case collectSources world REQUIRED_LINKS results s1 of
             Exited s2 \<Rightarrow> Exited s2
           | Thrown s2 \<Rightarrow> Thrown s2
           | Returned (sources, currentIndex) s2 \<Rightarrow>
               if length sources = 0 then void (generateGeneralAnswer world query s2)
               else void (generateWebAnswer world query sources s2)))"

text \<open>
  One pass of the loop body of the trigger script, for a query that did not end the loop.
  \<open>Thrown\<close> is an exception that leaves the loop.
\<close>

definition handleQuery_trigger :: "'n env \<Rightarrow> string \<Rightarrow> state \<Rightarrow> unit outcome" where
  "handleQuery_trigger world query s =
     (if \<not> includesStr (toLowerCase query) ''search''
      then void (generateGeneralAnswer world query s)
      else (case searchAndAnswer world query s of
              Thrown s' \<Rightarrow> void (generateGeneralAnswer world query s')
            | r \<Rightarrow> r))"

text \<open>One pass of the loop body of the always-search script: its handler only logs.\<close>

definition handleQuery_always :: "'n env \<Rightarrow> string \<Rightarrow> state \<Rightarrow> unit outcome" where
  "handleQuery_always world query s =
     (case searchWeb world query s of
        Exited s1 \<Rightarrow> Exited s1
      | Thrown s1 \<Rightarrow> Returned () s1
      | Returned results s1 \<Rightarrow>
          (case collectSlice world results s1 of
             Exited s2 \<Rightarrow> Exited s2
           | Thrown s2 \<Rightarrow> Returned () s2
           | Returned sources s2 \<Rightarrow>
               if length sources = 0 then Returned () s2
               else (case generateAnswer world query sources s2 of
                       Exited s3 \<Rightarrow> Exited s3
                     | Thrown s3 \<Rightarrow> Returned () s3
                     | Returned answer s3 \<Rightarrow> Returned () s3)))"

text \<open>
  \<open>main\<close> of each script, run on the successive values of \<open>prompt\<close>; once they are used
  up, \<open>prompt\<close> returns \<open>null\<close> (end of input). \<open>Returned\<close> is the normal end of the
  session, after the loop.
\<close>

fun main_trigger :: "'n env \<Rightarrow> string option list \<Rightarrow> state \<Rightarrow> unit outcome" where
  "main_trigger world [] s = Returned () s"
| "main_trigger world (query # rest) s =
     (if exitRequested query then Returned () s
      else (case handleQuery_trigger world (the query) s of
              Returned _ s' \<Rightarrow> main_trigger world rest s'
            | Thrown s' \<Rightarrow> Thrown s'
            | Exited s' \<Rightarrow> Exited s'))"

fun main_always :: "'n env \<Rightarrow> string option list \<Rightarrow> state \<Rightarrow> unit outcome" where
  "main_always world [] s = Returned () s"
| "main_always world (query # rest) s =
     (if exitRequested query then Returned () s
      else (case handleQuery_always world (the query) s of
              Returned _ s' \<Rightarrow> main_always world rest s'
            | Thrown s' \<Rightarrow> Thrown s'
            | Exited s' \<Rightarrow> Exited s'))"

section \<open>Notions used to state the properties\<close>

text \<open>
  A ranked list is sorted non-increasing by similarity when every entry is \<open>>=\<close> every
  later one.
\<close>

definition descending :: "'n engine \<Rightarrow> 'n ranked_source list \<Rightarrow> bool" where
  "descending js rs = sorted_wrt (\<lambda>a b. num_ge js (similarity a) (similarity b)) rs"

text \<open>
  A number that is not \<open>>=\<close> any number and that no number is \<open>>=\<close>: among the
  doubles this is NaN, and only NaN.
\<close>

definition unordered :: "'n engine \<Rightarrow> 'n \<Rightarrow> bool" where
  "unordered js v = (\<forall>x. \<not> num_ge js v x \<and> \<not> num_ge js x v)"

text \<open>
  What the language promises of \<open>Array.prototype.sort\<close> under every comparison
  function, consistent or not: the result holds the elements of the array, each as often
  as the array does.
\<close>

definition sortPermutes :: "'n engine \<Rightarrow> bool" where
  "sortPermutes js = (\<forall>cmp xs. mset (array_sort js cmp xs) = mset xs)"

text \<open>The pages requested in a trace, in the order of the requests.\<close>

fun pageUrls :: "event list \<Rightarrow> string list" where
  "pageUrls [] = []"
| "pageUrls (PageReq u # es) = u # pageUrls es"
| "pageUrls (e # es) = pageUrls es"

text \<open>
  A page fetch fails when the request fails or times out, when the body cannot be read, or
  when cheerio throws on it. The argument \<open>t\<close> is the time of the request.
\<close>

definition fetchFails :: "'n env \<Rightarrow> nat \<Rightarrow> string \<Rightarrow> bool" where
  "fetchFails world t u =
     (case pageReply world t u of
        PageNetErr \<Rightarrow> True
      | PageTimeout \<Rightarrow> True
      | PageResp status body \<Rightarrow>
          (case body of None \<Rightarrow> True | Some html \<Rightarrow> cheerioLoad world html = None))"

text \<open>The value a call returned, if it returned.\<close>

fun result :: "'a outcome \<Rightarrow> 'a option" where
  "result (Returned v _) = Some v"
| "result _ = None"

text \<open>
  The collecting loop of the trigger script again, by recursion on the results that are
  left: a helper of the proofs, shown below to compute what \<open>collectLoop\<close> computes.
\<close>

fun keepValid :: "'n source outcome \<Rightarrow> 'n source list \<Rightarrow> 'n source list" where
  "keepValid (Returned content _) sources = (if valid content then sources @ [content] else sources)"
| "keepValid _ sources = sources"

fun scanFrom ::
  "'n env \<Rightarrow> nat \<Rightarrow> search_result list \<Rightarrow> 'n source list \<Rightarrow> nat \<Rightarrow> state \<Rightarrow> ('n source list \<times> nat) outcome"
where
  "scanFrom world required [] sources i s = Returned (sources, i) s"
| "scanFrom world required (r # rs) sources i s =
     (if length sources < required then
        (case fetchPageContent world (url r) s of
           Exited s' \<Rightarrow> Exited s'
         | res \<Rightarrow> scanFrom world required rs (keepValid res sources) (Suc i) (ostate res))
      else Returned (sources, i) s)"

text \<open>The last request of a trace, if there is one.\<close>

definition lastRequest :: "state \<Rightarrow> event option" where
  "lastRequest s = (if trace s = [] then None else Some (last (trace s)))"

text \<open>
  Helpers of the proofs. From one state to a later one the trace only grows and the flag
  \<open>modelEnsured\<close> is never reset.
\<close>

definition step :: "state \<Rightarrow> state \<Rightarrow> bool" where
  "step s s' = (prefix (trace s) (trace s') \<and> (modelEnsured s \<longrightarrow> modelEnsured s'))"

text \<open>The process ended right after a request of the model check.\<close>

definition fatalEnd :: "state \<Rightarrow> bool" where
  "fatalEnd s = (lastRequest s = Some TagsReq \<or> lastRequest s = Some PullCmd)"

text \<open>
  What every call of the scripts guarantees: the state only moves on, and the process can
  end inside the call only in the model check, which is run only while the flag is unset.
\<close>

definition sound :: "state \<Rightarrow> 'a outcome \<Rightarrow> bool" where
  "sound s r = (step s (ostate r) \<and> (\<forall>s'. r = Exited s' \<longrightarrow> \<not> modelEnsured s \<and> fatalEnd s'))"

text \<open>
  The search call fails when the request fails, when the status is not ok (HTTP 500, say),
  or when the body holds no list of results.
\<close>

definition searchFails :: "'n env \<Rightarrow> nat \<Rightarrow> string \<Rightarrow> bool" where
  "searchFails world t q =
     (case searchReply world t q of
        SearchNetErr \<Rightarrow> True
      | SearchResp status body \<Rightarrow> \<not> ok status \<or> body = None)"

text \<open>
  The pages of the given URLs, fetched one after the other: the Sources that
  \<open>fetchPageContent\<close> returns, in the order of the URLs.
\<close>

fun fetchPages :: "'n env \<Rightarrow> string list \<Rightarrow> state \<Rightarrow> 'n source list outcome" where
  "fetchPages world [] s = Returned [] s"
| "fetchPages world (u # us) s =
     (case fetchPageContent world u s of
        Exited s' \<Rightarrow> Exited s'
      | Thrown s' \<Rightarrow> Thrown s'
      | Returned page s' \<Rightarrow>
          (case fetchPages world us s' of
             Exited s'' \<Rightarrow> Exited s''
           | Thrown s'' \<Rightarrow> Thrown s''
           | Returned pages s'' \<Rightarrow> Returned (page # pages) s''))"

text \<open>
  The queries of a session, in the words of the specification: the lines read before the
  first line that is \<open>null\<close>, empty, or \<open>exit\<close> in any case.
\<close>

fun queriesBefore :: "string option list \<Rightarrow> string list" where
  "queriesBefore [] = []"
| "queriesBefore (None # ls) = []"
| "queriesBefore (Some q # ls) =
     (if q = [] \<or> toLowerCase q = ''exit'' then [] else q # queriesBefore ls)"

text \<open>
  A run of passes over the given queries, one after the other: it goes on to the next
  query when a pass returns, and ends as the pass ends when it throws or exits.
\<close>

fun passes :: "(string \<Rightarrow> state \<Rightarrow> unit outcome) \<Rightarrow> string list \<Rightarrow> state \<Rightarrow> unit outcome" where
  "passes pass [] s = Returned () s"
| "passes pass (q # qs) s =
     (case pass q s of
        Returned _ s' \<Rightarrow> passes pass qs s'
      | Thrown s' \<Rightarrow> Thrown s'
      | Exited s' \<Rightarrow> Exited s')"

section \<open>Sample worlds and inputs\<close>

text \<open>
  An engine for the sample runs: exact arithmetic on the reals, with the infinities and
  NaN where no real result exists, and a stable insertion sort that leaves the first
  argument in front unless the comparison is positive. It has no rounding and no negative
  zero, so it is not the engine of the scripts. On the sample inputs below, whose entries
  are among \<open>-1, 0, 1, 3, 4\<close>, the arithmetic of the doubles is exact and gives the same
  values.
\<close>

datatype exact_num = Num real | PosInf | NegInf | NaN

fun ex_add :: "exact_num \<Rightarrow> exact_num \<Rightarrow> exact_num" where
  "ex_add (Num x) (Num y) = Num (x + y)"
| "ex_add NaN _ = NaN"
| "ex_add _ NaN = NaN"
| "ex_add PosInf NegInf = NaN"
| "ex_add NegInf PosInf = NaN"
| "ex_add PosInf _ = PosInf"
| "ex_add NegInf _ = NegInf"
| "ex_add (Num x) PosInf = PosInf"
| "ex_add (Num x) NegInf = NegInf"

fun ex_sub :: "exact_num \<Rightarrow> exact_num \<Rightarrow> exact_num" where
  "ex_sub (Num x) (Num y) = Num (x - y)"
| "ex_sub NaN _ = NaN"
| "ex_sub _ NaN = NaN"
| "ex_sub PosInf PosInf = NaN"
| "ex_sub NegInf NegInf = NaN"
| "ex_sub PosInf _ = PosInf"
| "ex_sub NegInf _ = NegInf"
| "ex_sub (Num x) PosInf = NegInf"
| "ex_sub (Num x) NegInf = PosInf"

fun ex_flip :: "exact_num \<Rightarrow> exact_num" where
  "ex_flip (Num x) = Num (- x)"
| "ex_flip PosInf = NegInf"
| "ex_flip NegInf = PosInf"
| "ex_flip NaN = NaN"

fun ex_mul :: "exact_num \<Rightarrow> exact_num \<Rightarrow> exact_num" where
  "ex_mul (Num x) (Num y) = Num (x * y)"
| "ex_mul NaN _ = NaN"
| "ex_mul _ NaN = NaN"
| "ex_mul (Num x) v = (if x = 0 then NaN else if 0 < x then v else ex_flip v)"
| "ex_mul v (Num y) = (if y = 0 then NaN else if 0 < y then v else ex_flip v)"
| "ex_mul PosInf v = v"
| "ex_mul NegInf v = ex_flip v"

fun ex_div :: "exact_num \<Rightarrow> exact_num \<Rightarrow> exact_num" where
  "ex_div (Num x) (Num y) =
     (if y \<noteq> 0 then Num (x / y)
      else if x = 0 then NaN else if 0 < x then PosInf else NegInf)"
| "ex_div NaN _ = NaN"
| "ex_div _ NaN = NaN"
| "ex_div (Num x) _ = Num 0"
| "ex_div v (Num y) = (if 0 \<le> y then v else ex_flip v)"
| "ex_div _ _ = NaN"

fun ex_sqrt :: "exact_num \<Rightarrow> exact_num" where
  "ex_sqrt (Num x) = (if x < 0 then NaN else Num (sqrt x))"
| "ex_sqrt PosInf = PosInf"
| "ex_sqrt _ = NaN"

fun ex_ge :: "exact_num \<Rightarrow> exact_num \<Rightarrow> bool" where
  "ex_ge (Num x) (Num y) = (y \<le> x)"
| "ex_ge NaN _ = False"
| "ex_ge _ NaN = False"
| "ex_ge PosInf _ = True"
| "ex_ge _ NegInf = True"
| "ex_ge (Num x) PosInf = False"
| "ex_ge NegInf _ = False"

fun ex_positive :: "exact_num \<Rightarrow> bool" where
  "ex_positive (Num x) = (0 < x)"
| "ex_positive PosInf = True"
| "ex_positive _ = False"

fun insertBy :: "('a \<Rightarrow> 'a \<Rightarrow> exact_num) \<Rightarrow> 'a \<Rightarrow> 'a list \<Rightarrow> 'a list" where
  "insertBy cmp x [] = [x]"
| "insertBy cmp x (y # ys) =
     (if ex_positive (cmp x y) then y # insertBy cmp x ys else x # y # ys)"

definition sortBy :: "('a \<Rightarrow> 'a \<Rightarrow> exact_num) \<Rightarrow> 'a list \<Rightarrow> 'a list" where
  "sortBy cmp xs = foldr (insertBy cmp) xs []"

definition sampleEngine :: "exact_num engine" where
  "sampleEngine =
     \<lparr>num_zero = Num 0, num_add = ex_add, num_sub = ex_sub, num_mul = ex_mul,
      num_div = ex_div, num_sqrt = ex_sqrt, num_ge = ex_ge, array_sort = sortBy\<rparr>"

text \<open>A world in which every request fails.\<close>

definition deadWorld :: "exact_num env" where
  "deadWorld =
     \<lparr>runtime = sampleEngine,
      searchReply = (\<lambda>t q. SearchNetErr), pageReply = (\<lambda>t u. PageNetErr),
      cheerioLoad = (\<lambda>html. None), tagsReply = (\<lambda>t. TagsNetErr), pullReply = (\<lambda>t. False),
      embedReply = (\<lambda>t x. EmbNetErr), generateReply = (\<lambda>t p. GenNetErr)\<rparr>"

text \<open>Every page is answered with status 404 and an error page that has a body.\<close>

definition notFoundWorld :: "exact_num env" where
  "notFoundWorld =
     deadWorld\<lparr>pageReply := (\<lambda>t u. PageResp 404 (Some ''<body>Not  Found</body>'')),
               cheerioLoad := (\<lambda>html. Some \<lparr>mainContent = None, bodyText = ''Not  Found''\<rparr>),
               embedReply := (\<lambda>t x. EmbResp 200 (EmbJson (Some [Num 1])))\<rparr>"

text \<open>The state at the start of a process, and a state after the model check.\<close>

definition fresh :: state where
  "fresh = \<lparr>modelEnsured = False, trace = []\<rparr>"

definition ready :: state where
  "ready = \<lparr>modelEnsured = True, trace = []\<rparr>"

definition embedded :: "string \<Rightarrow> exact_num list \<Rightarrow> exact_num source" where
  "embedded u e = \<lparr>url = u, text_src = [], embedding = e\<rparr>"

text \<open>
  The page \<open>u0\<close> times out; every other page has a main text of 101 characters, and
  every text is embedded as the vector \<open>[1]\<close>.
\<close>

definition oneBadWorld :: "exact_num env" where
  "oneBadWorld =
     deadWorld\<lparr>pageReply := (\<lambda>t u. if u = ''u0'' then PageTimeout else PageResp 200 (Some u)),
               cheerioLoad := (\<lambda>html. Some \<lparr>mainContent = Some (replicate 101 CHR ''x''), bodyText = []\<rparr>),
               embedReply := (\<lambda>t x. EmbResp 200 (EmbJson (Some [Num 1])))\<rparr>"

definition goodSource :: "string \<Rightarrow> exact_num source" where
  "goodSource u = \<lparr>url = u, text_src = replicate 101 CHR ''x'', embedding = [Num 1]\<rparr>"

definition linkTo :: "string \<Rightarrow> search_result" where
  "linkTo u = \<lparr>url = u, title = [], snippet = []\<rparr>"

definition fourLinks :: "search_result list" where
  "fourLinks = map linkTo [''u0'', ''u1'', ''u2'', ''u3'']"

definition elevenLinks :: "search_result list" where
  "elevenLinks =
     map linkTo [''u0'', ''u1'', ''u2'', ''u3'', ''u4'', ''u5'', ''u6'', ''u7'', ''u8'', ''u9'', ''u10'']"

text \<open>A raw hit with a URL only.\<close>

definition hit :: "string \<Rightarrow> raw_hit" where
  "hit u = \<lparr>hit_url = u, hit_title = None, hit_content = None\<rparr>"

text \<open>
  A world in which every service answers: the search returns the given hits, the page
  \<open>u0\<close> times out and every other page has a main text of 101 characters, the model
  is installed, every embedding is \<open>[1]\<close> and every generation streams \<open>ok\<close>.
\<close>

definition healthyWorld :: "raw_hit list \<Rightarrow> exact_num env" where
  "healthyWorld hits =
     \<lparr>runtime = sampleEngine,
      searchReply = (\<lambda>t q. SearchResp 200 (Some hits)),
      pageReply = (\<lambda>t u. if u = ''u0'' then PageTimeout else PageResp 200 (Some u)),
      cheerioLoad = (\<lambda>html. Some \<lparr>mainContent = Some (replicate 101 CHR ''x''), bodyText = []\<rparr>),
      tagsReply = (\<lambda>t. TagsResp 200 (Some [''nomic-embed-text:latest''])),
      pullReply = (\<lambda>t. True),
      embedReply = (\<lambda>t x. EmbResp 200 (EmbJson (Some [Num 1]))),
      generateReply = (\<lambda>t p. GenResp 200 (Some ([[Parsed (Some ''ok'')]], False)))\<rparr>"

text \<open>The same, with a search endpoint that answers HTTP 500.\<close>

definition http500World :: "exact_num env" where
  "http500World = (healthyWorld [])\<lparr>searchReply := (\<lambda>t q. SearchResp 500 None)\<rparr>"

text \<open>The healthy world with a generation endpoint that answers HTTP 500.\<close>

definition genDownWorld :: "raw_hit list \<Rightarrow> exact_num env" where
  "genDownWorld hits = (healthyWorld hits)\<lparr>generateReply := (\<lambda>t p. GenResp 500 None)\<rparr>"

text \<open>The same with no hits, and a search endpoint that answers HTTP 500 as well.\<close>

definition searchGenDownWorld :: "exact_num env" where
  "searchGenDownWorld = (genDownWorld [])\<lparr>searchReply := (\<lambda>t q. SearchResp 500 None)\<rparr>"

definition rankedGood :: "string \<Rightarrow> exact_num ranked_source" where
  "rankedGood u =
     \<lparr>url = u, text_src = replicate 101 CHR ''x'', embedding = [Num 1], similarity = Num 1\<rparr>"

section \<open>Cosine similarity: the reductions are the dot product and the magnitudes\<close>

lemma foldl_enumerate_zip:
  "n + length xs \<le> length b \<Longrightarrow>
   foldl (\<lambda>acc (i, x). f acc (g x (b ! i))) s (enumerate n xs)
     = foldl f s (map (\<lambda>(x, y). g x y) (zip xs (drop n b)))"
proof (induction xs arbitrary: n s)
  case Nil
  then show ?case by simp
next
  case (Cons x xs)
  have lt: "n < length b" using Cons.prems by simp
  have d: "drop n b = b ! n # drop (Suc n) b" using lt by (simp add: Cons_nth_drop_Suc)
  have "Suc n + length xs \<le> length b" using Cons.prems by simp
  from Cons.IH [OF this] show ?case by (simp add: d)
qed

lemma reduce_dot:
  "length a = length b \<Longrightarrow>
   reduce (\<lambda>sum x i. num_add js sum (num_mul js x (b ! i))) (num_zero js) a = dot js a b"
  using foldl_enumerate_zip [of 0 a b "num_add js" "num_mul js" "num_zero js"]
  by (simp add: reduce_def dot_def)

lemma foldl_enumerate_map:
  "foldl (\<lambda>acc (i, x). f acc (h x)) s (enumerate n xs) = foldl f s (map h xs)"
  by (induction xs arbitrary: n s) simp_all

lemma reduce_squares:
  "num_sqrt js (reduce (\<lambda>sum x i. num_add js sum (num_mul js x x)) (num_zero js) a)
     = magnitude js a"
  using foldl_enumerate_map [of "num_add js" "\<lambda>x. num_mul js x x" "num_zero js" 0 a]
  by (simp add: reduce_def magnitude_def)

text \<open>
  C5. On every engine, \<open>cosineSimilarity(a, b)\<close> is \<open>0\<close> when the lengths differ or a
  vector is empty; otherwise it is the dot product divided by the product of the
  magnitudes, all of them computed by the engine.
\<close>

theorem cosineSimilarity_spec:
  "cosineSimilarity js a b =
     (if length a \<noteq> length b \<or> a = [] \<or> b = [] then num_zero js
      else num_div js (dot js a b) (num_mul js (magnitude js a) (magnitude js b)))"
  by (auto simp: cosineSimilarity_def reduce_dot reduce_squares Let_def)

lemmas sample_defs = sampleEngine_def dot_def magnitude_def

theorem cosineSimilarity_spec_witness:
  "cosineSimilarity sampleEngine [Num 3, Num 4] [Num 3, Num 4] = Num 1 \<and>
   cosineSimilarity sampleEngine [Num 1, Num 0] [Num 0, Num 0] = NaN \<and>
   cosineSimilarity sampleEngine [Num 1, Num 2] [Num 1] = Num 0 \<and>
   cosineSimilarity sampleEngine [] [] = Num 0"
  using cosineSimilarity_spec [of sampleEngine "[Num 3, Num 4]" "[Num 3, Num 4]"]
    cosineSimilarity_spec [of sampleEngine "[Num 1, Num 0]" "[Num 0, Num 0]"]
    cosineSimilarity_spec [of sampleEngine "[Num 1, Num 2]" "[Num 1]"]
    cosineSimilarity_spec [of sampleEngine "[]" "[]"]
  by (simp add: sample_defs)

section \<open>Relevance ranking\<close>

lemma cosineSimilarity_fold:
  "cosineSimilarity js a b =
     (if length a \<noteq> length b \<or> a = [] \<or> b = [] then num_zero js
      else num_div js (dot js a b) (num_mul js (magnitude js a) (magnitude js b)))"
  by (auto simp: cosineSimilarity_def reduce_dot reduce_squares Let_def)

text \<open>
  On every engine whose sort returns the elements it was given, the ranker returns
  \<open>min 3 n\<close> of \<open>n\<close> sources: at most three, and fewer when fewer are supplied.
\<close>

lemma length_rankSources:
  assumes "sortPermutes js"
  shows "length (rankSources js q sources) = min 3 (length sources)"
proof -
  let ?xs = "map (withSimilarity js q) sources"
  let ?ys = "array_sort js (\<lambda>a b. num_sub js (similarity b) (similarity a)) ?xs"
  have "mset ?ys = mset ?xs" using assms by (simp add: sortPermutes_def)
  then have "length ?ys = length ?xs" by (rule mset_eq_length)
  then show ?thesis by (simp add: rankSources_def)
qed

text \<open>
  C4 fails on the code. Take two or three sources, one of whose similarities is a number
  that \<open>>=\<close> relates to no number, as NaN is. Then on every engine whose sort returns the
  elements it was given, whatever the order it puts them in, the list the ranker returns is
  not sorted non-increasing by similarity.
\<close>

theorem rankSources_nan_unsorted:
  assumes "sortPermutes js"
    and "2 \<le> length sources" and "length sources \<le> 3"
    and "s \<in> set sources"
    and "unordered js (cosineSimilarity js q (embedding s))"
  shows "\<not> descending js (rankSources js q sources)"
proof
  let ?xs = "map (withSimilarity js q) sources"
  let ?ys = "array_sort js (\<lambda>a b. num_sub js (similarity b) (similarity a)) ?xs"
  let ?x = "withSimilarity js q s"
  assume d: "descending js (rankSources js q sources)"
  have m: "mset ?ys = mset ?xs" using assms(1) by (simp add: sortPermutes_def)
  then have len: "length ?ys = length sources" using mset_eq_length by fastforce
  then have r: "rankSources js q sources = ?ys" using assms(3) by (simp add: rankSources_def)
  have "?x \<in> set ?xs" using assms(4) by simp
  then have "?x \<in> set ?ys" using m by (metis set_mset_mset)
  then obtain i where i: "i < length ?ys" "?ys ! i = ?x" by (auto simp: in_set_conv_nth)
  have two: "0 < length ?ys" "1 < length ?ys" using len assms(2) by linarith+
  obtain j where j: "j < length ?ys" "j \<noteq> i"
  proof (cases "i = 0")
    case True
    then show ?thesis using that [of 1] two by simp
  next
    case False
    then show ?thesis using that [of 0] two by simp
  qed
  have u: "unordered js (similarity ?x)" using assms(5) by (simp add: withSimilarity_def)
  have srt: "sorted_wrt (\<lambda>a b. num_ge js (similarity a) (similarity b)) ?ys"
    using d r by (simp add: descending_def)
  show False
  proof (cases "i < j")
    case True
    then have "num_ge js (similarity (?ys ! i)) (similarity (?ys ! j))"
      using srt j(1) by (simp add: sorted_wrt_iff_nth_less)
    then show False using u i(2) by (simp add: unordered_def)
  next
    case False
    then have "j < i" using j(2) by simp
    then have "num_ge js (similarity (?ys ! j)) (similarity (?ys ! i))"
      using srt i(1) by (simp add: sorted_wrt_iff_nth_less)
    then show False using u i(2) by (simp add: unordered_def)
  qed
qed

lemma length_insertBy: "length (insertBy cmp x ys) = Suc (length ys)"
  by (induction ys) simp_all

lemma mset_insertBy: "mset (insertBy cmp x ys) = add_mset x (mset ys)"
  by (induction ys) simp_all

lemma mset_sortBy: "mset (sortBy cmp xs) = mset xs"
  unfolding sortBy_def by (induction xs) (simp_all add: mset_insertBy)

lemma sortPermutes_sample: "sortPermutes sampleEngine"
  by (simp add: sortPermutes_def sampleEngine_def mset_sortBy)

lemma unordered_NaN: "unordered sampleEngine NaN"
proof -
  have "\<not> ex_ge NaN x \<and> \<not> ex_ge x NaN" for x by (cases x) simp_all
  then show ?thesis by (simp add: unordered_def sampleEngine_def)
qed

text \<open>
  The failing input on the sample engine: the query embedding \<open>[1, 0]\<close> and three
  sources, the second with the zero vector for its embedding. Its similarity is
  \<open>0 / (1 * 0)\<close>, which is NaN; the comparison function returns NaN for every pair that
  holds it; the list returned is not sorted, and the insertion sort leaves it in the order
  \<open>-1, NaN, 1\<close>.
\<close>

theorem rankSources_nan_unsorted_witness:
  "cosineSimilarity sampleEngine [Num 1, Num 0] (embedding (embedded ''b'' [Num 0, Num 0])) = NaN \<and>
   \<not> descending sampleEngine (rankSources sampleEngine [Num 1, Num 0]
        [embedded ''a'' [Num (- 1), Num 0], embedded ''b'' [Num 0, Num 0],
         embedded ''c'' [Num 1, Num 0]]) \<and>
   map similarity (rankSources sampleEngine [Num 1, Num 0]
        [embedded ''a'' [Num (- 1), Num 0], embedded ''b'' [Num 0, Num 0],
         embedded ''c'' [Num 1, Num 0]]) = [Num (- 1), NaN, Num 1]"
proof -
  let ?srcs = "[embedded ''a'' [Num (- 1), Num 0], embedded ''b'' [Num 0, Num 0],
                embedded ''c'' [Num 1, Num 0]]"
  have n: "cosineSimilarity sampleEngine [Num 1, Num 0] (embedding (embedded ''b'' [Num 0, Num 0])) = NaN"
    by (simp add: embedded_def cosineSimilarity_fold sample_defs)
  have u: "unordered sampleEngine
             (cosineSimilarity sampleEngine [Num 1, Num 0] (embedding (embedded ''b'' [Num 0, Num 0])))"
    using unordered_NaN by (simp only: n)
  have l: "2 \<le> length ?srcs" "length ?srcs \<le> 3" "embedded ''b'' [Num 0, Num 0] \<in> set ?srcs"
    by simp_all
  have v: "map similarity (rankSources sampleEngine [Num 1, Num 0] ?srcs) = [Num (- 1), NaN, Num 1]"
    by (simp add: rankSources_def sortBy_def withSimilarity_def embedded_def
        cosineSimilarity_fold sample_defs)
  from rankSources_nan_unsorted [OF sortPermutes_sample l u] n v show ?thesis by simp
qed

section \<open>Page fetcher\<close>

lemma ensure_not_Thrown: "ensureEmbeddingModelRunning world s \<noteq> Thrown s'"
  by (simp add: ensureEmbeddingModelRunning_def Let_def split: tags_reply.split option.split)

lemma getEmbedding_not_Thrown: "getEmbedding world t s \<noteq> Thrown s'"
  using ensure_not_Thrown [of world s]
  by (simp add: getEmbedding_def Let_def
      split: outcome.split embed_reply.split embed_body.split option.split)

lemma fetchPageContent_not_Thrown: "fetchPageContent world u s \<noteq> Thrown s'"
  by (simp add: fetchPageContent_def Let_def
      split: page_reply.split option.split outcome.split)

text \<open>
  C1, as the code has it. \<open>fetchPageContent\<close> never throws, and every failure of the
  fetch (a failed request, a timeout, an unreadable body, a failed extraction) gives the
  Source with the empty text and the empty embedding. The status of the response is not
  among the failures.
\<close>

theorem fetchPageContent_failure_policy:
  "(\<forall>s'. fetchPageContent world u s \<noteq> Thrown s') \<and>
   (fetchFails world (tick s) u \<longrightarrow>
      fetchPageContent world u s = Returned (emptySource u) (request (PageReq u) s))"
  by (simp add: fetchPageContent_not_Thrown)
     (simp add: fetchPageContent_def fetchFails_def Let_def split: page_reply.split option.split)

theorem fetchPageContent_failure_policy_witness:
  "fetchFails deadWorld (tick fresh) ''http://a'' \<and>
   fetchPageContent deadWorld ''http://a'' fresh =
     Returned \<lparr>url = ''http://a'', text_src = [], embedding = []\<rparr>
       \<lparr>modelEnsured = False, trace = [PageReq ''http://a'']\<rparr>"
proof -
  have h: "fetchFails deadWorld (tick fresh) ''http://a''"
    by (simp add: fetchFails_def deadWorld_def)
  from fetchPageContent_failure_policy [of deadWorld "''http://a''" fresh] h
  show ?thesis by (simp add: emptySource_def request_def fresh_def)
qed

text \<open>
  The claim as stated counts a response that is not 2xx among the failures. A 404 response
  with a body is read like any other: the Source has the text of the error page and its
  embedding.
\<close>

theorem fetchPageContent_non2xx_counterexample:
  "\<not> ok 404 \<and>
   pageReply notFoundWorld (tick ready) ''http://a'' = PageResp 404 (Some ''<body>Not  Found</body>'') \<and>
   fetchPageContent notFoundWorld ''http://a'' ready =
     Returned \<lparr>url = ''http://a'', text_src = ''Not Found'', embedding = [Num 1]\<rparr>
       \<lparr>modelEnsured = True, trace = [PageReq ''http://a'', EmbedReq ''Not Found'']\<rparr>"
  by (simp add: fetchPageContent_def getEmbedding_def notFoundWorld_def deadWorld_def ready_def
      request_def tick_def ok_def MAX_CONTENT_LENGTH_def isWhiteSpace_def Let_def)

section \<open>Source collection\<close>

declare collectLoop.simps [simp del]

lemma collectLoop_scanFrom:
  "collectLoop world required results sources i s
     = scanFrom world required (drop i results) sources i s"
proof (induction world required results sources i s rule: collectLoop.induct)
  case (1 world required results sources i s)
  show ?case
  proof (cases "length sources < required \<and> i < length results")
    case False
    then show ?thesis
      by (cases "drop i results") (auto simp: collectLoop.simps [of world required results sources i s])
  next
    case True
    then have d: "drop i results = results ! i # drop (Suc i) results"
      by (simp add: Cons_nth_drop_Suc)
    let ?r = "fetchPageContent world (url (results ! i)) s"
    show ?thesis
    proof (cases ?r)
      case (Exited s')
      then show ?thesis using True d
        by (simp add: collectLoop.simps [of world required results sources i s])
    next
      case (Thrown s')
      then show ?thesis by (simp add: fetchPageContent_not_Thrown)
    next
      case (Returned content s')
      let ?srcs = "if 100 < length (text_src content) then sources @ [content] else sources"
      show ?thesis
      proof (cases "length results \<le> Suc i \<and> length ?srcs < required")
        case brk: True
        then show ?thesis using True d Returned
          by (auto simp: collectLoop.simps [of world required results sources i s] valid_def Let_def
              split: if_splits)
      next
        case False
        have "collectLoop world required results ?srcs (i + 1) s'
               = scanFrom world required (drop (i + 1) results) ?srcs (i + 1) s'"
          using "1.IH"(1) [OF True Returned refl refl refl] False by simp
        then show ?thesis using True d Returned False
          by (auto simp: collectLoop.simps [of world required results sources i s] valid_def Let_def
              split: if_splits)
      qed
    qed
  qed
qed


lemma pageUrls_append: "pageUrls (xs @ ys) = pageUrls xs @ pageUrls ys"
  by (induction xs rule: pageUrls.induct) simp_all

lemma ensure_pageUrls:
  "pageUrls (trace (ostate (ensureEmbeddingModelRunning world s))) = pageUrls (trace s)"
  by (simp add: ensureEmbeddingModelRunning_def Let_def request_def pageUrls_append
      split: tags_reply.split option.split)

lemma getEmbedding_pageUrls:
  "pageUrls (trace (ostate (getEmbedding world t s))) = pageUrls (trace s)"
proof (cases "modelEnsured s")
  case True
  then show ?thesis
    by (simp add: getEmbedding_def Let_def request_def pageUrls_append
        split: embed_reply.split embed_body.split option.split)
next
  case False
  then show ?thesis
    using ensure_pageUrls [of world s]
    by (cases "ensureEmbeddingModelRunning world s")
       (simp_all add: getEmbedding_def Let_def request_def pageUrls_append
        split: embed_reply.split embed_body.split option.split)
qed

lemma ostate_caught:
  "ostate (case r of Returned v s2 \<Rightarrow> Returned (f v) s2 | Thrown s2 \<Rightarrow> Returned y s2
           | Exited s2 \<Rightarrow> Exited s2) = ostate r"
  by (cases r) simp_all

lemma fetchPageContent_pageUrls:
  "pageUrls (trace (ostate (fetchPageContent world u s))) = pageUrls (trace s) @ [u]"
proof -
  have e: "pageUrls (trace (request (PageReq u) s)) = pageUrls (trace s) @ [u]"
    by (simp add: request_def pageUrls_append)
  show ?thesis
    unfolding fetchPageContent_def Let_def
    by (simp split: page_reply.split option.split add: ostate_caught getEmbedding_pageUrls e)
qed

lemma length_keepValid: "length (keepValid r acc) \<le> Suc (length acc)"
  by (cases r) simp_all

lemma length_keepValid_ge: "length acc \<le> length (keepValid r acc)"
  by (cases r) simp_all

lemma set_keepValid: "x \<in> set (keepValid r acc) \<Longrightarrow> x \<in> set acc \<or> valid x"
  by (cases r) (auto split: if_splits)

lemma scanFrom_props:
  "scanFrom world req rs acc i s = Returned (srcs, k) s' \<Longrightarrow>
     i \<le> k \<and> k \<le> i + length rs \<and>
     pageUrls (trace s') = pageUrls (trace s) @ map url (take (k - i) rs) \<and>
     (length acc \<le> req \<longrightarrow> length srcs \<le> req \<and> (length srcs = req \<or> k = i + length rs)) \<and>
     (\<forall>x\<in>set srcs. x \<in> set acc \<or> valid x)"
proof (induction rs arbitrary: acc i s)
  case Nil
  then show ?case by auto
next
  case (Cons r rs)
  show ?case
  proof (cases "length acc < req")
    case False
    with Cons.prems show ?thesis by auto
  next
    case True
    let ?res = "fetchPageContent world (url r) s"
    have ne: "\<forall>s1. ?res \<noteq> Exited s1" using Cons.prems True by (auto split: outcome.splits)
    have rec: "scanFrom world req rs (keepValid ?res acc) (Suc i) (ostate ?res) = Returned (srcs, k) s'"
      using Cons.prems True by (cases ?res) auto
    note ih = Cons.IH [OF rec]
    have u: "pageUrls (trace (ostate ?res)) = pageUrls (trace s) @ [url r]"
      by (rule fetchPageContent_pageUrls)
    have ik: "Suc i \<le> k" using ih by simp
    then have "k - i = Suc (k - Suc i)" by arith
    then have tk: "take (k - i) (r # rs) = r # take (k - Suc i) rs" by simp
    have le: "length (keepValid ?res acc) \<le> req" using True length_keepValid [of ?res acc] by simp
    show ?thesis
      using ih u tk le set_keepValid [of _ ?res acc] by auto
  qed
qed

lemma scanFrom_prefix:
  "scanFrom world req rs acc i s = Returned (srcs, k) s' \<Longrightarrow> i + j < k \<Longrightarrow>
     \<exists>srcs' s''. scanFrom world req (take j rs) acc i s = Returned (srcs', i + j) s'' \<and>
        length srcs' < req"
proof (induction rs arbitrary: acc i s j)
  case Nil
  then show ?case by simp
next
  case (Cons r rs)
  have t: "length acc < req" using Cons.prems by (auto split: if_splits)
  show ?case
  proof (cases j)
    case 0
    then show ?thesis using t by simp
  next
    case (Suc j')
    let ?res = "fetchPageContent world (url r) s"
    have rec: "scanFrom world req rs (keepValid ?res acc) (Suc i) (ostate ?res) = Returned (srcs, k) s'"
      using Cons.prems t by (cases ?res) auto
    have "Suc i + j' < k" using Cons.prems Suc by simp
    from Cons.IH [OF rec this] obtain srcs' s'' where
      "scanFrom world req (take j' rs) (keepValid ?res acc) (Suc i) (ostate ?res) = Returned (srcs', Suc i + j') s''"
      "length srcs' < req" by blast
    moreover have "\<forall>s1. ?res \<noteq> Exited s1" using Cons.prems t by (auto split: outcome.splits)
    ultimately show ?thesis using Suc t by (cases ?res) auto
  qed
qed

lemma fetchLinks_props:
  "fetchLinks world ls acc s = Returned srcs s' \<Longrightarrow>
     pageUrls (trace s') = pageUrls (trace s) @ map url ls \<and>
     length srcs \<le> length acc + length ls \<and>
     (\<forall>x\<in>set srcs. x \<in> set acc \<or> valid x)"
proof (induction ls arbitrary: acc s)
  case Nil
  then show ?case by auto
next
  case (Cons l ls)
  let ?res = "fetchPageContent world (url l) s"
  from Cons.prems obtain content s1 where r: "?res = Returned content s1"
    by (cases ?res) auto
  let ?acc = "if 100 < length (text_src content) then acc @ [content] else acc"
  have rec: "fetchLinks world ls ?acc s1 = Returned srcs s'" using Cons.prems r by simp
  note ih = Cons.IH [OF rec]
  have u: "pageUrls (trace s1) = pageUrls (trace s) @ [url l]"
    using fetchPageContent_pageUrls [of world "url l" s] r by simp
  show ?case using ih u by (auto simp: valid_def split: if_splits)
qed


lemma scanFrom_pages:
  "scanFrom world req rs acc i s = Returned (srcs, k) s' \<Longrightarrow>
     \<exists>pages. fetchPages world (map url (take (k - i) rs)) s = Returned pages s' \<and>
             srcs = acc @ [c \<leftarrow> pages. 100 < length (text_src c)]"
proof (induction rs arbitrary: acc i s)
  case Nil
  then show ?case by simp
next
  case (Cons r rs)
  show ?case
  proof (cases "length acc < req")
    case False
    with Cons.prems show ?thesis by simp
  next
    case True
    let ?res = "fetchPageContent world (url r) s"
    obtain page s1 where res: "?res = Returned page s1"
      using Cons.prems True fetchPageContent_not_Thrown [of world "url r" s]
      by (cases ?res) auto
    have rec: "scanFrom world req rs (keepValid ?res acc) (Suc i) s1 = Returned (srcs, k) s'"
      using Cons.prems True res by simp
    from Cons.IH [OF rec] obtain pages where
      p: "fetchPages world (map url (take (k - Suc i) rs)) s1 = Returned pages s'"
         "srcs = keepValid ?res acc @ [c \<leftarrow> pages. 100 < length (text_src c)]"
      by blast
    have "Suc i \<le> k" using scanFrom_props [OF rec] by simp
    then have "k - i = Suc (k - Suc i)" by arith
    then have tk: "take (k - i) (r # rs) = r # take (k - Suc i) rs" by simp
    have "fetchPages world (map url (take (k - i) (r # rs))) s = Returned (page # pages) s'"
      using res p(1) by (simp add: tk)
    moreover have "srcs = acc @ [c \<leftarrow> page # pages. 100 < length (text_src c)]"
      using p(2) res by (simp add: valid_def)
    ultimately show ?thesis by blast
  qed
qed

lemma fetchLinks_pages:
  "fetchLinks world ls acc s = Returned srcs s' \<Longrightarrow>
     \<exists>pages. fetchPages world (map url ls) s = Returned pages s' \<and>
             srcs = acc @ [c \<leftarrow> pages. 100 < length (text_src c)]"
proof (induction ls arbitrary: acc s)
  case Nil
  then show ?case by simp
next
  case (Cons l ls)
  let ?res = "fetchPageContent world (url l) s"
  from Cons.prems obtain page s1 where res: "?res = Returned page s1"
    by (cases ?res) auto
  let ?acc = "if 100 < length (text_src page) then acc @ [page] else acc"
  have rec: "fetchLinks world ls ?acc s1 = Returned srcs s'" using Cons.prems res by simp
  from Cons.IH [OF rec] obtain pages where
    p: "fetchPages world (map url ls) s1 = Returned pages s'"
       "srcs = ?acc @ [c \<leftarrow> pages. 100 < length (text_src c)]"
    by blast
  have "fetchPages world (map url (l # ls)) s = Returned (page # pages) s'"
    using res p(1) by simp
  moreover have "srcs = acc @ [c \<leftarrow> page # pages. 100 < length (text_src c)]"
    using p(2) by simp
  ultimately show ?case by blast
qed

lemma scanFrom_not_Thrown: "scanFrom world req rs acc i s \<noteq> Thrown s'"
  by (induction rs arbitrary: acc i s) (auto split: outcome.splits)

lemma collapse_replicate:
  "\<not> isWhiteSpace c \<Longrightarrow> collapseWhitespace (replicate n c) = replicate n c"
  by (induction n) simp_all

lemma fetch_oneBadWorld:
  "modelEnsured s \<Longrightarrow> fetchPageContent oneBadWorld u s =
     (if u = ''u0'' then Returned (emptySource u) (request (PageReq u) s)
      else Returned \<lparr>url = u, text_src = replicate 101 CHR ''x'', embedding = [Num 1]\<rparr>
             (request (EmbedReq (replicate 101 CHR ''x'')) (request (PageReq u) s)))"
  by (simp add: fetchPageContent_def getEmbedding_def oneBadWorld_def deadWorld_def request_def
      tick_def ok_def MAX_CONTENT_LENGTH_def collapse_replicate isWhiteSpace_def Let_def)

lemma modelEnsured_request: "modelEnsured (request e s) = modelEnsured s"
  by (simp add: request_def)

lemma trace_request: "trace (request e s) = trace s @ [e]"
  by (simp add: request_def)

text \<open>
  The claim as stated covers both scripts. The always-search script fetches a slice of
  fixed size: of eleven results whose first page times out it fetches the first ten and
  returns nine sources; the quota of ten is not reached and the eleventh result is never
  fetched.
\<close>

theorem collectSlice_counterexample:
  "length elevenLinks = 11 \<and>
   map_option (map url) (result (collectSlice oneBadWorld elevenLinks ready))
     = Some [''u1'', ''u2'', ''u3'', ''u4'', ''u5'', ''u6'', ''u7'', ''u8'', ''u9''] \<and>
   pageUrls (trace (ostate (collectSlice oneBadWorld elevenLinks ready)))
     = [''u0'', ''u1'', ''u2'', ''u3'', ''u4'', ''u5'', ''u6'', ''u7'', ''u8'', ''u9'']"
proof -
  have m: "modelEnsured ready" by (simp add: ready_def)
  show ?thesis
    by (simp add: collectSlice_def elevenLinks_def linkTo_def fetch_oneBadWorld m
        modelEnsured_request trace_request pageUrls_append)
       (simp add: ready_def emptySource_def)
qed

lemma collectSources_oneBadWorld:
  "collectSources oneBadWorld 2 fourLinks ready =
     Returned ([goodSource ''u1'', goodSource ''u2''], 3)
       \<lparr>modelEnsured = True,
        trace = [PageReq ''u0'', PageReq ''u1'', EmbedReq (replicate 101 CHR ''x''),
                 PageReq ''u2'', EmbedReq (replicate 101 CHR ''x'')]\<rparr>"
proof -
  have m: "modelEnsured ready" by (simp add: ready_def)
  show ?thesis
    by (simp add: collectSources_def collectLoop_scanFrom fourLinks_def linkTo_def
        fetch_oneBadWorld m modelEnsured_request valid_def goodSource_def)
       (simp add: ready_def request_def emptySource_def)
qed

lemma collectSlice_oneBadWorld:
  "collectSlice oneBadWorld fourLinks ready =
     Returned [goodSource ''u1'', goodSource ''u2'', goodSource ''u3'']
       \<lparr>modelEnsured = True,
        trace = [PageReq ''u0'', PageReq ''u1'', EmbedReq (replicate 101 CHR ''x''),
                 PageReq ''u2'', EmbedReq (replicate 101 CHR ''x''),
                 PageReq ''u3'', EmbedReq (replicate 101 CHR ''x'')]\<rparr>"
proof -
  have m: "modelEnsured ready" by (simp add: ready_def)
  show ?thesis
    by (simp add: collectSlice_def fourLinks_def linkTo_def fetch_oneBadWorld m
        modelEnsured_request goodSource_def)
       (simp add: ready_def request_def emptySource_def)
qed

text \<open>
  C3. Every Source that a collector returns is valid: its text is longer than 100. This
  holds for the collecting loop of the trigger script and for the slice of the
  always-search script.
\<close>

theorem collected_sources_valid:
  "(collectSources world required results s = Returned (sources, k) s' \<longrightarrow>
      (\<forall>x\<in>set sources. 100 < length (text_src x))) \<and>
   (collectSlice world results s = Returned sources2 s2 \<longrightarrow>
      (\<forall>x\<in>set sources2. 100 < length (text_src x)))"
proof (intro conjI impI)
  assume "collectSources world required results s = Returned (sources, k) s'"
  then have "scanFrom world required results [] 0 s = Returned (sources, k) s'"
    by (simp add: collectSources_def collectLoop_scanFrom)
  from scanFrom_props [OF this] show "\<forall>x\<in>set sources. 100 < length (text_src x)"
    by (simp add: valid_def)
next
  assume "collectSlice world results s = Returned sources2 s2"
  then have "fetchLinks world (take 10 results) [] s = Returned sources2 s2"
    by (simp add: collectSlice_def)
  from fetchLinks_props [OF this] show "\<forall>x\<in>set sources2. 100 < length (text_src x)"
    by (simp add: valid_def)
qed

theorem collected_sources_valid_witness:
  "collectSources oneBadWorld 2 fourLinks ready =
     Returned ([goodSource ''u1'', goodSource ''u2''], 3)
       \<lparr>modelEnsured = True,
        trace = [PageReq ''u0'', PageReq ''u1'', EmbedReq (replicate 101 CHR ''x''),
                 PageReq ''u2'', EmbedReq (replicate 101 CHR ''x'')]\<rparr> \<and>
   list_all (\<lambda>x. 100 < length (text_src x)) [goodSource ''u1'', goodSource ''u2''] \<and>
   list_all (\<lambda>x. 100 < length (text_src x)) [goodSource ''u1'', goodSource ''u2'', goodSource ''u3'']"
  using collected_sources_valid [where world = oneBadWorld and required = 2
      and results = fourLinks and s = ready] collectSources_oneBadWorld
    collectSlice_oneBadWorld
  by (simp add: list_all_iff)

text \<open>
  C2, as the code has it. The collecting loop of the trigger script never throws, and when
  it returns \<open>sources\<close> after \<open>k\<close> passes: there are at most \<open>required\<close> sources; the
  pages requested are those of the first \<open>k\<close> results, in order; the sources are the
  fetched pages of these results whose text is longer than 100, in that order; the quota is
  met or the results are used up; and at no earlier point \<open>j < k\<close> was the quota met (the
  same loop on the first \<open>j\<close> results uses them all and ends below the quota), so no
  page is fetched once the quota is met. The always-search script requests the pages of the
  first ten results, all of them, and returns those whose text is longer than 100, in
  order, so at most ten.
\<close>

theorem collector_scan:
  "(\<forall>t. collectSources world required results s \<noteq> Thrown t) \<and>
   (collectSources world required results s = Returned (sources, k) s' \<longrightarrow>
      length sources \<le> required \<and> k \<le> length results \<and>
      pageUrls (trace s') = pageUrls (trace s) @ map url (take k results) \<and>
      (\<exists>pages. fetchPages world (map url (take k results)) s = Returned pages s' \<and>
               sources = [c \<leftarrow> pages. 100 < length (text_src c)]) \<and>
      (length sources = required \<or> k = length results) \<and>
      (\<forall>j<k. \<exists>sources_j s_j.
          collectSources world required (take j results) s = Returned (sources_j, j) s_j \<and>
          length sources_j < required)) \<and>
   (collectSlice world results s = Returned sources2 s2 \<longrightarrow>
      length sources2 \<le> 10 \<and>
      pageUrls (trace s2) = pageUrls (trace s) @ map url (take 10 results) \<and>
      (\<exists>pages. fetchPages world (map url (take 10 results)) s = Returned pages s2 \<and>
               sources2 = [c \<leftarrow> pages. 100 < length (text_src c)]))"
proof -
  have total: "\<forall>t. collectSources world required results s \<noteq> Thrown t"
    by (simp add: collectSources_def collectLoop_scanFrom scanFrom_not_Thrown)
  have scan: "length sources \<le> required \<and> k \<le> length results \<and>
      pageUrls (trace s') = pageUrls (trace s) @ map url (take k results) \<and>
      (\<exists>pages. fetchPages world (map url (take k results)) s = Returned pages s' \<and>
               sources = [c \<leftarrow> pages. 100 < length (text_src c)]) \<and>
      (length sources = required \<or> k = length results) \<and>
      (\<forall>j<k. \<exists>sources_j s_j.
          collectSources world required (take j results) s = Returned (sources_j, j) s_j \<and>
          length sources_j < required)"
    if a: "collectSources world required results s = Returned (sources, k) s'"
  proof -
    have sc: "scanFrom world required results [] 0 s = Returned (sources, k) s'"
      using a by (simp add: collectSources_def collectLoop_scanFrom)
    have early: "\<exists>sources_j s_j.
          collectSources world required (take j results) s = Returned (sources_j, j) s_j \<and>
          length sources_j < required" if "j < k" for j
    proof -
      have "0 + j < k" using that by simp
      from scanFrom_prefix [OF sc this] show ?thesis
        by (simp add: collectSources_def collectLoop_scanFrom)
    qed
    have pages: "\<exists>pages. fetchPages world (map url (take k results)) s = Returned pages s' \<and>
               sources = [c \<leftarrow> pages. 100 < length (text_src c)]"
      using scanFrom_pages [OF sc] by simp
    show ?thesis using scanFrom_props [OF sc] early pages by simp
  qed
  have slice: "length sources2 \<le> 10 \<and>
      pageUrls (trace s2) = pageUrls (trace s) @ map url (take 10 results) \<and>
      (\<exists>pages. fetchPages world (map url (take 10 results)) s = Returned pages s2 \<and>
               sources2 = [c \<leftarrow> pages. 100 < length (text_src c)])"
    if "collectSlice world results s = Returned sources2 s2"
  proof -
    have f: "fetchLinks world (take 10 results) [] s = Returned sources2 s2"
      using that by (simp add: collectSlice_def)
    from fetchLinks_props [OF f] fetchLinks_pages [OF f] show ?thesis by simp
  qed
  show ?thesis using total scan slice by blast
qed

text \<open>
  A run of both collectors on four results whose first page times out, with a quota of
  two for the loop: the loop stops after the third result with the pages of \<open>u1\<close> and
  \<open>u2\<close> and never requests \<open>u3\<close>; the empty Source of \<open>u0\<close> was fetched and left
  out.
\<close>

theorem collector_scan_witness:
  "collectSources oneBadWorld 2 fourLinks ready =
     Returned ([goodSource ''u1'', goodSource ''u2''], 3)
       \<lparr>modelEnsured = True,
        trace = [PageReq ''u0'', PageReq ''u1'', EmbedReq (replicate 101 CHR ''x''),
                 PageReq ''u2'', EmbedReq (replicate 101 CHR ''x'')]\<rparr> \<and>
   pageUrls [PageReq ''u0'', PageReq ''u1'', EmbedReq (replicate 101 CHR ''x''),
             PageReq ''u2'', EmbedReq (replicate 101 CHR ''x'')] = map url (take 3 fourLinks) \<and>
   (\<exists>pages. fetchPages oneBadWorld (map url (take 3 fourLinks)) ready =
        Returned pages
          \<lparr>modelEnsured = True,
           trace = [PageReq ''u0'', PageReq ''u1'', EmbedReq (replicate 101 CHR ''x''),
                    PageReq ''u2'', EmbedReq (replicate 101 CHR ''x'')]\<rparr> \<and>
      [goodSource ''u1'', goodSource ''u2''] = [c \<leftarrow> pages. 100 < length (text_src c)]) \<and>
   (\<exists>sources_j s_j.
      collectSources oneBadWorld 2 (take 2 fourLinks) ready = Returned (sources_j, 2) s_j \<and>
      length sources_j < 2) \<and>
   pageUrls [PageReq ''u0'', PageReq ''u1'', EmbedReq (replicate 101 CHR ''x''),
             PageReq ''u2'', EmbedReq (replicate 101 CHR ''x''),
             PageReq ''u3'', EmbedReq (replicate 101 CHR ''x'')] = map url (take 10 fourLinks) \<and>
   (\<exists>pages. fetchPages oneBadWorld (map url (take 10 fourLinks)) ready =
        Returned pages
          \<lparr>modelEnsured = True,
           trace = [PageReq ''u0'', PageReq ''u1'', EmbedReq (replicate 101 CHR ''x''),
                    PageReq ''u2'', EmbedReq (replicate 101 CHR ''x''),
                    PageReq ''u3'', EmbedReq (replicate 101 CHR ''x'')]\<rparr> \<and>
      [goodSource ''u1'', goodSource ''u2'', goodSource ''u3''] =
        [c \<leftarrow> pages. 100 < length (text_src c)])"
proof -
  let ?s1 = "\<lparr>modelEnsured = True,
        trace = [PageReq ''u0'', PageReq ''u1'', EmbedReq (replicate 101 CHR ''x''),
                 PageReq ''u2'', EmbedReq (replicate 101 CHR ''x'')]\<rparr>"
  let ?s2 = "\<lparr>modelEnsured = True,
        trace = [PageReq ''u0'', PageReq ''u1'', EmbedReq (replicate 101 CHR ''x''),
                 PageReq ''u2'', EmbedReq (replicate 101 CHR ''x''),
                 PageReq ''u3'', EmbedReq (replicate 101 CHR ''x'')]\<rparr>"
  note t = collector_scan [where world = oneBadWorld and required = 2 and results = fourLinks
      and s = ready and sources = "[goodSource ''u1'', goodSource ''u2'']" and k = 3
      and s' = ?s1 and ?sources2.0 = "[goodSource ''u1'', goodSource ''u2'', goodSource ''u3'']"
      and ?s2.0 = ?s2]
  note a = t [THEN conjunct2, THEN conjunct1, THEN mp, OF collectSources_oneBadWorld]
  note b = t [THEN conjunct2, THEN conjunct2, THEN mp, OF collectSlice_oneBadWorld]
  have two: "(2::nat) < 3" by simp
  have early: "\<exists>sources_j s_j.
      collectSources oneBadWorld 2 (take 2 fourLinks) ready = Returned (sources_j, 2) s_j \<and>
      length sources_j < 2"
    using a two by blast
  have u1: "pageUrls (trace ?s1) = pageUrls (trace ready) @ map url (take 3 fourLinks)"
    using a by blast
  have u2: "pageUrls (trace ?s2) = pageUrls (trace ready) @ map url (take 10 fourLinks)"
    using b by blast
  have p1: "\<exists>pages. fetchPages oneBadWorld (map url (take 3 fourLinks)) ready = Returned pages ?s1 \<and>
      [goodSource ''u1'', goodSource ''u2''] = [c \<leftarrow> pages. 100 < length (text_src c)]"
    using a by blast
  have p2: "\<exists>pages. fetchPages oneBadWorld (map url (take 10 fourLinks)) ready = Returned pages ?s2 \<and>
      [goodSource ''u1'', goodSource ''u2'', goodSource ''u3''] =
        [c \<leftarrow> pages. 100 < length (text_src c)]"
    using b by blast
  have r: "trace ready = []" by (simp add: ready_def)
  show ?thesis
    using collectSources_oneBadWorld early p1 p2 u1 u2 by (simp add: r)
qed

section \<open>Orchestrator\<close>

lemma step_refl: "step s s"
  by (simp add: step_def)

lemma step_trans: "step s s1 \<Longrightarrow> step s1 s2 \<Longrightarrow> step s s2"
  by (auto simp: step_def)

lemma step_request: "step s (request e s)"
  by (simp add: step_def request_def)

lemma step_ensured: "step s (s\<lparr>modelEnsured := True\<rparr>)"
  by (simp add: step_def)

lemma sound_after: "step s s1 \<Longrightarrow> sound s1 r \<Longrightarrow> sound s r"
  by (auto simp: sound_def step_def)

lemma fatalEnd_request: "fatalEnd (request TagsReq s)" "fatalEnd (request PullCmd s)"
  by (simp_all add: fatalEnd_def lastRequest_def request_def)

lemma sound_Returned: "sound s (Returned v s') = step s s'"
  by (simp add: sound_def)

lemma sound_Thrown: "sound s (Thrown s') = step s s'"
  by (simp add: sound_def)

lemma sound_void: "sound s (void r) = sound s r"
  by (cases r) (simp_all add: sound_def)

lemma ensure_sound: "\<not> modelEnsured s \<Longrightarrow> sound s (ensureEmbeddingModelRunning world s)"
  by (auto simp: ensureEmbeddingModelRunning_def Let_def sound_def step_def request_def
      fatalEnd_def lastRequest_def split: tags_reply.split option.split)

lemma getEmbedding_sound: "sound s (getEmbedding world t s)"
proof (cases "modelEnsured s")
  case True
  then show ?thesis
    by (simp add: getEmbedding_def Let_def sound_def step_def request_def
        split: embed_reply.split embed_body.split option.split)
next
  case False
  note e = ensure_sound [OF False, of world]
  show ?thesis
  proof (cases "ensureEmbeddingModelRunning world s")
    case (Returned v s1)
    then have "step s s1" using e by (simp add: sound_Returned)
    then show ?thesis using False Returned
      by (simp add: getEmbedding_def Let_def sound_def step_def request_def
          split: embed_reply.split embed_body.split option.split)
  next
    case (Thrown s1)
    then show ?thesis using e False by (simp add: getEmbedding_def sound_def)
  next
    case (Exited s1)
    then show ?thesis using e False by (simp add: getEmbedding_def sound_def)
  qed
qed

lemma sound_caught:
  "sound s r \<Longrightarrow>
   sound s (case r of Returned v s2 \<Rightarrow> Returned (f v) s2 | Thrown s2 \<Rightarrow> Returned y s2
            | Exited s2 \<Rightarrow> Exited s2)"
  by (cases r) (simp_all add: sound_def)

lemma fetchPageContent_sound: "sound s (fetchPageContent world u s)"
proof -
  have "sound s (getEmbedding world t (request (PageReq u) s))" for t
    by (rule sound_after [OF step_request getEmbedding_sound])
  then show ?thesis
    unfolding fetchPageContent_def Let_def
    by (simp split: page_reply.split option.split add: sound_caught sound_Returned step_request)
qed

lemma scanFrom_sound: "sound s (scanFrom world req rs acc i s)"
proof (induction rs arbitrary: acc i s)
  case Nil
  then show ?case by (simp add: sound_Returned step_refl)
next
  case (Cons r rs)
  let ?res = "fetchPageContent world (url r) s"
  have f: "sound s ?res" by (rule fetchPageContent_sound)
  show ?case
  proof (cases "length acc < req")
    case False
    then show ?thesis by (simp add: sound_Returned step_refl)
  next
    case True
    show ?thesis
    proof (cases ?res)
      case (Exited s1)
      then show ?thesis using f True by (simp add: sound_def)
    next
      case (Returned c s1)
      then have "step s s1" using f by (simp add: sound_Returned)
      from sound_after [OF this Cons.IH] show ?thesis using True Returned by simp
    next
      case (Thrown s1)
      then have "step s s1" using f by (simp add: sound_Thrown)
      from sound_after [OF this Cons.IH] show ?thesis using True Thrown by simp
    qed
  qed
qed

lemma collectSources_sound: "sound s (collectSources world req results s)"
  by (simp add: collectSources_def collectLoop_scanFrom scanFrom_sound)

lemma fetchLinks_sound: "sound s (fetchLinks world ls acc s)"
proof (induction ls arbitrary: acc s)
  case Nil
  then show ?case by (simp add: sound_Returned step_refl)
next
  case (Cons l ls)
  let ?res = "fetchPageContent world (url l) s"
  have f: "sound s ?res" by (rule fetchPageContent_sound)
  show ?case
  proof (cases ?res)
    case (Exited s1)
    then show ?thesis using f by (simp add: sound_def)
  next
    case (Returned c s1)
    then have "step s s1" using f by (simp add: sound_Returned)
    from sound_after [OF this Cons.IH] show ?thesis using Returned by simp
  next
    case (Thrown s1)
    then show ?thesis using f by (simp add: sound_def)
  qed
qed

lemma collectSlice_sound: "sound s (collectSlice world results s)"
  by (simp add: collectSlice_def fetchLinks_sound)

lemma searchWeb_cases:
  "searchWeb world q s = Thrown (request (SearchReq q) s) \<or>
   (\<exists>results. searchWeb world q s = Returned results (request (SearchReq q) s))"
  by (simp add: searchWeb_def Let_def split: search_reply.split option.split)

lemma generateStreamingAnswer_cases:
  "generateStreamingAnswer world p s = Thrown (request (GenerateReq p) s) \<or>
   (\<exists>answer. generateStreamingAnswer world p s = Returned answer (request (GenerateReq p) s))"
  by (simp add: generateStreamingAnswer_def Let_def split: gen_reply.split option.split prod.split)

lemma generateStreamingAnswer_sound: "sound s (generateStreamingAnswer world p s)"
  using generateStreamingAnswer_cases [of world p s]
  by (auto simp: sound_def step_request)

lemma generateGeneralAnswer_sound: "sound s (generateGeneralAnswer world q s)"
  by (simp add: generateGeneralAnswer_def generateStreamingAnswer_sound)

lemma generateWebAnswer_sound: "sound s (generateWebAnswer world q sources s)"
proof (cases "getEmbedding world q s")
  case (Returned v s1)
  then have "step s s1" using getEmbedding_sound [of s world q] by (simp add: sound_Returned)
  from sound_after [OF this generateStreamingAnswer_sound] show ?thesis
    using Returned by (simp add: generateWebAnswer_def)
next
  case (Thrown s1)
  then show ?thesis using getEmbedding_sound [of s world q]
    by (simp add: generateWebAnswer_def sound_def)
next
  case (Exited s1)
  then show ?thesis using getEmbedding_sound [of s world q]
    by (simp add: generateWebAnswer_def sound_def)
qed

lemma generateAnswer_eq: "generateAnswer world q sources s = generateWebAnswer world q sources s"
  by (simp add: generateAnswer_def generateWebAnswer_def generateStreamingAnswer_def Let_def
      split: outcome.split)

lemma searchWeb_fails:
  "searchFails world (tick s) q \<Longrightarrow> searchWeb world q s = Thrown (request (SearchReq q) s)"
  by (auto simp: searchWeb_def searchFails_def Let_def split: search_reply.splits option.splits)

lemma searchWeb_sound: "sound s (searchWeb world q s)"
  using searchWeb_cases [of world q s] by (auto simp: sound_def step_request)

lemma searchAndAnswer_sound:
  "sound (request (SearchReq (trim (replaceFirst ''search'' [] q))) s) (searchAndAnswer world q s)"
proof -
  let ?arg = "trim (replaceFirst ''search'' [] q)"
  let ?s1 = "request (SearchReq ?arg) s"
  from searchWeb_cases [of world ?arg s] show ?thesis
  proof
    assume "searchWeb world ?arg s = Thrown ?s1"
    then show ?thesis by (simp add: searchAndAnswer_def sound_Thrown step_refl)
  next
    assume "\<exists>results. searchWeb world ?arg s = Returned results ?s1"
    then obtain results where r: "searchWeb world ?arg s = Returned results ?s1" ..
    let ?c = "collectSources world REQUIRED_LINKS results ?s1"
    have c: "sound ?s1 ?c" by (rule collectSources_sound)
    have "sound ?s1 (case ?c of
             Exited s2 \<Rightarrow> Exited s2
           | Thrown s2 \<Rightarrow> Thrown s2
           | Returned (sources, currentIndex) s2 \<Rightarrow>
               if length sources = 0 then void (generateGeneralAnswer world q s2)
               else void (generateWebAnswer world q sources s2))"
    proof (cases ?c)
      case (Returned v s2)
      then have st: "step ?s1 s2" using c by (simp add: sound_Returned)
      obtain sources k where v: "v = (sources, k)" by (cases v)
      have g: "sound ?s1 (void (generateGeneralAnswer world q s2))"
        by (rule sound_after [OF st]) (simp add: sound_void generateGeneralAnswer_sound)
      have w: "sound ?s1 (void (generateWebAnswer world q sources s2))"
        by (rule sound_after [OF st]) (simp add: sound_void generateWebAnswer_sound)
      show ?thesis using Returned v g w by simp
    next
      case (Thrown s2)
      then show ?thesis using c by (simp add: sound_def)
    next
      case (Exited s2)
      then show ?thesis using c by (simp add: sound_def)
    qed
    then show ?thesis
      using r by (simp add: searchAndAnswer_def)
  qed
qed

lemma handleQuery_trigger_search_sound:
  assumes "includesStr (toLowerCase q) ''search''"
  shows "sound (request (SearchReq (trim (replaceFirst ''search'' [] q))) s)
           (handleQuery_trigger world q s)"
proof -
  let ?s1 = "request (SearchReq (trim (replaceFirst ''search'' [] q))) s"
  have sa: "sound ?s1 (searchAndAnswer world q s)" by (rule searchAndAnswer_sound)
  show ?thesis
  proof (cases "searchAndAnswer world q s")
    case (Thrown s2)
    then have "step ?s1 s2" using sa by (simp add: sound_Thrown)
    from sound_after [OF this, of "void (generateGeneralAnswer world q s2)"]
    show ?thesis using assms Thrown
      by (simp add: handleQuery_trigger_def sound_void generateGeneralAnswer_sound)
  qed (use sa assms in \<open>simp_all add: handleQuery_trigger_def\<close>)
qed

lemma handleQuery_trigger_sound: "sound s (handleQuery_trigger world q s)"
proof (cases "includesStr (toLowerCase q) ''search''")
  case False
  then show ?thesis
    by (simp add: handleQuery_trigger_def sound_void generateGeneralAnswer_sound)
next
  case True
  from sound_after [OF step_request handleQuery_trigger_search_sound [OF True]]
  show ?thesis .
qed

lemma handleQuery_always_search_sound:
  "sound (request (SearchReq q) s) (handleQuery_always world q s)"
proof -
  let ?s1 = "request (SearchReq q) s"
  from searchWeb_cases [of world q s] show ?thesis
  proof
    assume "searchWeb world q s = Thrown ?s1"
    then show ?thesis by (simp add: handleQuery_always_def sound_Returned step_refl)
  next
    assume "\<exists>results. searchWeb world q s = Returned results ?s1"
    then obtain results where r: "searchWeb world q s = Returned results ?s1" ..
    let ?c = "collectSlice world results ?s1"
    have c: "sound ?s1 ?c" by (rule collectSlice_sound)
    have "sound ?s1 (case ?c of
             Exited s2 \<Rightarrow> Exited s2
           | Thrown s2 \<Rightarrow> Returned () s2
           | Returned sources s2 \<Rightarrow>
               if length sources = 0 then Returned () s2
               else (case generateAnswer world q sources s2 of
                       Exited s3 \<Rightarrow> Exited s3
                     | Thrown s3 \<Rightarrow> Returned () s3
                     | Returned answer s3 \<Rightarrow> Returned () s3))"
    proof (cases ?c)
      case (Returned sources s2)
      then have st: "step ?s1 s2" using c by (simp add: sound_Returned)
      have "sound s2 (generateAnswer world q sources s2)"
        by (simp add: generateAnswer_eq generateWebAnswer_sound)
      then have "sound s2 (case generateAnswer world q sources s2 of
                       Exited s3 \<Rightarrow> Exited s3
                     | Thrown s3 \<Rightarrow> Returned () s3
                     | Returned answer s3 \<Rightarrow> Returned () s3)"
        by (cases "generateAnswer world q sources s2") (simp_all add: sound_def)
      from sound_after [OF st this] show ?thesis
        using Returned st by (simp add: sound_Returned)
    next
      case (Thrown s2)
      then show ?thesis using c by (simp add: sound_def)
    next
      case (Exited s2)
      then show ?thesis using c by (simp add: sound_def)
    qed
    then show ?thesis
      using r by (simp add: handleQuery_always_def)
  qed
qed

lemma handleQuery_always_sound: "sound s (handleQuery_always world q s)"
  by (rule sound_after [OF step_request handleQuery_always_search_sound])

lemma handleQuery_always_not_Thrown: "handleQuery_always world q s \<noteq> Thrown s'"
  by (simp add: handleQuery_always_def split: outcome.split)

lemma generalAnswer_trace:
  "trace (ostate (void (generateGeneralAnswer world q s))) = trace s @ [GenerateReq (generalPrompt q)]"
  using generateStreamingAnswer_cases [of world "generalPrompt q" s]
  by (auto simp: generateGeneralAnswer_def request_def)

lemma generalAnswer_not_Exited: "void (generateGeneralAnswer world q s) \<noteq> Exited s'"
  using generateStreamingAnswer_cases [of world "generalPrompt q" s]
  by (auto simp: generateGeneralAnswer_def)

lemma generalAnswer_Thrown:
  "void (generateGeneralAnswer world q s) = Thrown s' \<Longrightarrow>
   lastRequest s' = Some (GenerateReq (generalPrompt q))"
  using generateStreamingAnswer_cases [of world "generalPrompt q" s]
  by (auto simp: generateGeneralAnswer_def request_def lastRequest_def)

lemma handleQuery_trigger_Thrown:
  assumes "handleQuery_trigger world q s = Thrown s'"
  shows "lastRequest s' = Some (GenerateReq (generalPrompt q))"
proof (cases "includesStr (toLowerCase q) ''search''")
  case False
  then show ?thesis using assms generalAnswer_Thrown [of world q s s']
    by (simp add: handleQuery_trigger_def)
next
  case True
  show ?thesis
  proof (cases "searchAndAnswer world q s")
    case (Thrown s1)
    then show ?thesis using assms True generalAnswer_Thrown [of world q s1 s']
      by (simp add: handleQuery_trigger_def)
  qed (use assms True in \<open>simp_all add: handleQuery_trigger_def\<close>)
qed

lemma Exited_sound: "sound s r \<Longrightarrow> r = Exited s' \<Longrightarrow> \<not> modelEnsured s \<and> fatalEnd s'"
  by (simp add: sound_def)

text \<open>
  Which failures stay inside a pass. In the always-search script no exception leaves the
  loop body, and once the model check has passed every pass returns to the prompt. In both
  scripts the process ends inside a pass only in the model check of the embedding client,
  which is run only while the flag is unset. In the trigger script an exception that leaves
  the loop body comes out of a general-answer generation, and out of nothing else.
\<close>

lemma failures_inside_a_pass:
  "(\<forall>s'. handleQuery_always world q s \<noteq> Thrown s') \<and>
   (handleQuery_always world q s = Exited s1 \<longrightarrow> \<not> modelEnsured s \<and> fatalEnd s1) \<and>
   (handleQuery_trigger world q s = Exited s2 \<longrightarrow> \<not> modelEnsured s \<and> fatalEnd s2) \<and>
   (handleQuery_trigger world q s = Thrown s3 \<longrightarrow>
      lastRequest s3 = Some (GenerateReq (generalPrompt q))) \<and>
   (modelEnsured s \<longrightarrow> (\<exists>s'. handleQuery_always world q s = Returned () s'))"
proof -
  have a: "\<not> modelEnsured s \<and> fatalEnd s1" if "handleQuery_always world q s = Exited s1"
    using Exited_sound [OF handleQuery_always_sound that] .
  have b: "\<not> modelEnsured s \<and> fatalEnd s2" if "handleQuery_trigger world q s = Exited s2"
    using Exited_sound [OF handleQuery_trigger_sound that] .
  have c: "\<exists>s'. handleQuery_always world q s = Returned () s'" if "modelEnsured s"
  proof (cases "handleQuery_always world q s")
    case (Exited s')
    then show ?thesis using Exited_sound [OF handleQuery_always_sound Exited] that by simp
  qed (simp_all add: handleQuery_always_not_Thrown)
  show ?thesis
    using a b c handleQuery_always_not_Thrown handleQuery_trigger_Thrown by blast
qed


text \<open>
  C6, as the code has it. When the search call fails, the trigger script falls back to the
  general answer: it makes exactly one more request, the generation with the
  knowledge-only prompt of the query as typed; the process does not end there, and when
  that generation returns the pass returns to the prompt, with no exception. The
  always-search script has no general-answer mode: its pass returns to the prompt with no
  further request and no exception.
\<close>

theorem search_failure_fallback:
  "(includesStr (toLowerCase q) ''search'' \<and>
    searchFails world (tick s) (trim (replaceFirst ''search'' [] q)) \<longrightarrow>
      trace (ostate (handleQuery_trigger world q s)) =
        trace s @ [SearchReq (trim (replaceFirst ''search'' [] q)), GenerateReq (generalPrompt q)] \<and>
      (\<forall>s'. handleQuery_trigger world q s \<noteq> Exited s') \<and>
      (\<forall>answer s2.
          generateGeneralAnswer world q (request (SearchReq (trim (replaceFirst ''search'' [] q))) s)
            = Returned answer s2 \<longrightarrow>
          handleQuery_trigger world q s = Returned () s2)) \<and>
   (searchFails world (tick s) q \<longrightarrow>
      handleQuery_always world q s = Returned () (request (SearchReq q) s))"
proof -
  let ?s1 = "request (SearchReq (trim (replaceFirst ''search'' [] q))) s"
  have t: "handleQuery_trigger world q s = void (generateGeneralAnswer world q ?s1)"
    if "includesStr (toLowerCase q) ''search''"
       "searchFails world (tick s) (trim (replaceFirst ''search'' [] q))"
    using that searchWeb_fails [OF that(2)]
    by (simp add: handleQuery_trigger_def searchAndAnswer_def)
  have r: "void (generateGeneralAnswer world q ?s1) = Returned () s2"
    if "generateGeneralAnswer world q ?s1 = Returned answer s2" for answer s2
    using that by simp
  have a: "handleQuery_always world q s = Returned () (request (SearchReq q) s)"
    if "searchFails world (tick s) q"
    using searchWeb_fails [OF that] by (simp add: handleQuery_always_def)
  show ?thesis
    using t a r generalAnswer_not_Exited [of world q ?s1]
    by (auto simp: generalAnswer_trace trace_request)
qed


lemma replaceFirst_absent: "\<not> includesStr q p \<Longrightarrow> replaceFirst p r q = q"
  by (induction q) auto

lemma startsWith_prefix: "startsWith s p = prefix p s"
  by (induction s p rule: startsWith.induct) auto

lemma replaceFirst_first:
  "p \<noteq> [] \<Longrightarrow> \<not> includesStr (a @ butlast p) p \<Longrightarrow> replaceFirst p r (a @ p @ b) = a @ r @ b"
proof (induction a)
  case Nil
  then show ?case by (cases p) (simp_all add: startsWith_prefix)
next
  case (Cons x a)
  have n: "\<not> prefix p (x # a @ butlast p)" and rest: "\<not> includesStr (a @ butlast p) p"
    using Cons.prems by (simp_all add: startsWith_prefix)
  have "\<not> prefix p (x # a @ p @ b)"
  proof
    assume "prefix p (x # a @ p @ b)"
    moreover have "prefix (x # a @ butlast p) (x # a @ p @ b)"
      using Cons.prems(1) by (simp add: prefixeq_butlast)
    moreover have "length p \<le> length (x # a @ butlast p)" by simp
    ultimately have "prefix p (x # a @ butlast p)" by (rule prefix_length_prefix)
    then show False using n by simp
  qed
  then show ?case using Cons.IH [OF Cons.prems(1) rest] by (simp add: startsWith_prefix)
qed

text \<open>
  C9. In the trigger script a query in web-search mode is sent to the search client as
  \<open>query.replace("search", "").trim()\<close>: the first request of the pass is the search for
  that string. The replacement removes the first occurrence of the lowercase word and
  nothing else. A query with the trigger word in another case only (so that it holds no
  lowercase occurrence) is sent with nothing removed: the string sent is \<open>trim query\<close>.
\<close>

theorem trigger_search_query:
  "(includesStr (toLowerCase q) ''search'' \<longrightarrow>
      (\<exists>evs. trace (ostate (handleQuery_trigger world q s)) =
              trace s @ SearchReq (trim (replaceFirst ''search'' [] q)) # evs)) \<and>
   (\<not> includesStr (a @ ''searc'') ''search'' \<longrightarrow>
      replaceFirst ''search'' [] (a @ ''search'' @ b) = a @ b) \<and>
   (includesStr (toLowerCase q) ''search'' \<and> \<not> includesStr q ''search'' \<longrightarrow>
      replaceFirst ''search'' [] q = q \<and>
      (\<exists>evs. trace (ostate (handleQuery_trigger world q s)) = trace s @ SearchReq (trim q) # evs))"
proof -
  have sent: "\<exists>evs. trace (ostate (handleQuery_trigger world q s)) =
              trace s @ SearchReq (trim (replaceFirst ''search'' [] q)) # evs"
    if "includesStr (toLowerCase q) ''search''"
  proof -
    from handleQuery_trigger_search_sound [OF that, of s world]
    have "prefix (trace s @ [SearchReq (trim (replaceFirst ''search'' [] q))])
            (trace (ostate (handleQuery_trigger world q s)))"
      by (simp add: sound_def step_def trace_request)
    then show ?thesis by (auto simp: prefix_def)
  qed
  have first: "replaceFirst ''search'' [] (a @ ''search'' @ b) = a @ b"
    if "\<not> includesStr (a @ ''searc'') ''search''"
    using replaceFirst_first [of "''search''" a "[]" b] that by simp
  show ?thesis using sent first replaceFirst_absent [of q "''search''" "[]"] by auto
qed

lemma handleQuery_trigger_progress:
  "length (trace s) < length (trace (ostate (handleQuery_trigger world q s)))"
proof (cases "includesStr (toLowerCase q) ''search''")
  case True
  from handleQuery_trigger_search_sound [OF True, of s world] show ?thesis
    by (auto simp: sound_def step_def trace_request prefix_def)
next
  case False
  then show ?thesis by (simp add: handleQuery_trigger_def generalAnswer_trace)
qed

lemma handleQuery_always_progress:
  "length (trace s) < length (trace (ostate (handleQuery_always world q s)))"
  using handleQuery_always_search_sound [of q s world]
  by (auto simp: sound_def step_def trace_request prefix_def)

lemma main_trigger_mono:
  "length (trace s) \<le> length (trace (ostate (main_trigger world qs s)))"
proof (induction qs arbitrary: s)
  case Nil
  then show ?case by simp
next
  case (Cons query rest)
  show ?case
  proof (cases "exitRequested query")
    case True
    then show ?thesis by simp
  next
    case False
    let ?h = "handleQuery_trigger world (the query) s"
    have p: "length (trace s) < length (trace (ostate ?h))" by (rule handleQuery_trigger_progress)
    show ?thesis
    proof (cases ?h)
      case (Returned v s')
      then show ?thesis using False p Cons.IH [of s'] by simp
    qed (use False p in simp_all)
  qed
qed

lemma main_always_mono:
  "length (trace s) \<le> length (trace (ostate (main_always world qs s)))"
proof (induction qs arbitrary: s)
  case Nil
  then show ?case by simp
next
  case (Cons query rest)
  show ?case
  proof (cases "exitRequested query")
    case True
    then show ?thesis by simp
  next
    case False
    let ?h = "handleQuery_always world (the query) s"
    have p: "length (trace s) < length (trace (ostate ?h))" by (rule handleQuery_always_progress)
    show ?thesis
    proof (cases ?h)
      case (Returned v s')
      then show ?thesis using False p Cons.IH [of s'] by simp
    qed (use False p in simp_all)
  qed
qed

lemma main_trigger_busy:
  "\<not> exitRequested query \<Longrightarrow> main_trigger world (query # rest) s \<noteq> Returned () s"
proof
  assume n: "\<not> exitRequested query" and e: "main_trigger world (query # rest) s = Returned () s"
  let ?h = "handleQuery_trigger world (the query) s"
  have p: "length (trace s) < length (trace (ostate ?h))" by (rule handleQuery_trigger_progress)
  show False
  proof (cases ?h)
    case (Returned v s')
    then have "main_trigger world rest s' = Returned () s" using n e by simp
    then show False using main_trigger_mono [of s' world rest] p Returned by simp
  qed (use n e in simp_all)
qed

lemma main_always_busy:
  "\<not> exitRequested query \<Longrightarrow> main_always world (query # rest) s \<noteq> Returned () s"
proof
  assume n: "\<not> exitRequested query" and e: "main_always world (query # rest) s = Returned () s"
  let ?h = "handleQuery_always world (the query) s"
  have p: "length (trace s) < length (trace (ostate ?h))" by (rule handleQuery_always_progress)
  show False
  proof (cases ?h)
    case (Returned v s')
    then have "main_always world rest s' = Returned () s" using n e by simp
    then show False using main_always_mono [of s' world rest] p Returned by simp
  qed (use n e in simp_all)
qed

lemma main_trigger_passes:
  "main_trigger world lines s = passes (handleQuery_trigger world) (queriesBefore lines) s"
proof (induction lines arbitrary: s)
  case Nil
  then show ?case by simp
next
  case (Cons l lines)
  show ?case
  proof (cases l)
    case None
    then show ?thesis by (simp add: exitRequested_def)
  next
    case (Some q)
    then show ?thesis using Cons.IH
      by (simp add: exitRequested_def split: outcome.split)
  qed
qed

lemma main_always_passes:
  "main_always world lines s = passes (handleQuery_always world) (queriesBefore lines) s"
proof (induction lines arbitrary: s)
  case Nil
  then show ?case by simp
next
  case (Cons l lines)
  show ?case
  proof (cases l)
    case None
    then show ?thesis by (simp add: exitRequested_def)
  next
    case (Some q)
    then show ?thesis using Cons.IH
      by (simp add: exitRequested_def split: outcome.split)
  qed
qed

text \<open>
  C10. In both scripts the loop ends at a line exactly when the line is \<open>null\<close>, empty,
  or equal to \<open>exit\<close> up to case. The session ends at such a line with nothing done for
  it, and at no other line. A session is the run of the passes for the lines read before
  the first such line, one pass after the other: no line before it ends the loop (unless
  its pass throws or exits), and no line after it is read. In particular, on any other
  line whose pass returns, the loop goes on to the next line.
\<close>

theorem loop_exit_condition:
  "(exitRequested query \<longleftrightarrow>
      query = None \<or> query = Some [] \<or> (\<exists>q. query = Some q \<and> toLowerCase q = ''exit'')) \<and>
   (main_trigger world (query # rest) s = Returned () s \<longleftrightarrow> exitRequested query) \<and>
   (main_always world (query # rest) s = Returned () s \<longleftrightarrow> exitRequested query) \<and>
   main_trigger world lines s = passes (handleQuery_trigger world) (queriesBefore lines) s \<and>
   main_always world lines s = passes (handleQuery_always world) (queriesBefore lines) s \<and>
   (\<not> exitRequested (Some q) \<and> handleQuery_trigger world q s = Returned () s' \<longrightarrow>
      main_trigger world (Some q # rest) s = main_trigger world rest s') \<and>
   (\<not> exitRequested (Some q) \<and> handleQuery_always world q s = Returned () s' \<longrightarrow>
      main_always world (Some q # rest) s = main_always world rest s')"
proof -
  have a: "exitRequested query \<longleftrightarrow>
      query = None \<or> query = Some [] \<or> (\<exists>q. query = Some q \<and> toLowerCase q = ''exit'')"
    by (cases query) (simp_all add: exitRequested_def)
  have b: "main_trigger world (query # rest) s = Returned () s \<longleftrightarrow> exitRequested query"
    using main_trigger_busy [of query world rest s] by auto
  have c: "main_always world (query # rest) s = Returned () s \<longleftrightarrow> exitRequested query"
    using main_always_busy [of query world rest s] by auto
  have d: "main_trigger world (Some q # rest) s = main_trigger world rest s'"
    if "\<not> exitRequested (Some q)" "handleQuery_trigger world q s = Returned () s'"
    using that by simp
  have e: "main_always world (Some q # rest) s = main_always world rest s'"
    if "\<not> exitRequested (Some q)" "handleQuery_always world q s = Returned () s'"
    using that by simp
  show ?thesis
    using a b c d e main_trigger_passes [of world lines s] main_always_passes [of world lines s]
    by blast
qed

lemmas world_defs = healthyWorld_def http500World_def deadWorld_def hit_def

lemmas call_defs = searchWeb_def fetchPageContent_def getEmbedding_def
  ensureEmbeddingModelRunning_def generateGeneralAnswer_def generateStreamingAnswer_def
  request_def tick_def ok_def Let_def toSearchResult_def orEmpty_def

lemma lower_search_cats: "includesStr (toLowerCase ''search cats'') ''search''"
  by code_simp

lemma arg_search_cats: "trim (replaceFirst ''search'' [] ''search cats'') = ''cats''"
  by (simp add: trim_def isWhiteSpace_def)

lemma trim_cats: "trim '' cats'' = ''cats''"
  by (simp add: trim_def isWhiteSpace_def)

text \<open>
  The claim as stated covers both scripts. In the always-search script a search endpoint
  that answers HTTP 500 is followed by no generation request at all.
\<close>

theorem search_failure_always_counterexample:
  "searchReply http500World (tick fresh) ''cats'' = SearchResp 500 None \<and> \<not> ok 500 \<and>
   handleQuery_always http500World ''cats'' fresh =
     Returned () \<lparr>modelEnsured = False, trace = [SearchReq ''cats'']\<rparr>"
  by (simp add: handleQuery_always_def world_defs call_defs fresh_def)

theorem search_failure_fallback_witness:
  "searchFails http500World (tick fresh) ''cats'' \<and>
   handleQuery_trigger http500World ''search cats'' fresh =
     Returned () \<lparr>modelEnsured = False,
                  trace = [SearchReq ''cats'', GenerateReq (generalPrompt ''search cats'')]\<rparr> \<and>
   handleQuery_always http500World ''cats'' fresh =
     Returned () \<lparr>modelEnsured = False, trace = [SearchReq ''cats'']\<rparr>"
proof -
  let ?s1 = "\<lparr>modelEnsured = False, trace = [SearchReq ''cats'']\<rparr>"
  let ?s2 = "\<lparr>modelEnsured = False,
              trace = [SearchReq ''cats'', GenerateReq (generalPrompt ''search cats'')]\<rparr>"
  have f: "searchFails http500World (tick fresh) ''cats''"
    by (simp add: searchFails_def world_defs ok_def)
  have f': "searchFails http500World (tick fresh) (trim (replaceFirst ''search'' [] ''search cats''))"
    using f by (simp only: arg_search_cats)
  have g: "generateGeneralAnswer http500World ''search cats''
             (request (SearchReq (trim (replaceFirst ''search'' [] ''search cats''))) fresh)
           = Returned ''ok'' ?s2"
    by (simp only: arg_search_cats) (simp add: world_defs call_defs fresh_def)
  note t = search_failure_fallback [where q = "''search cats''" and world = http500World
      and s = fresh, THEN conjunct1, THEN mp, OF conjI [OF lower_search_cats f'],
      THEN conjunct2, THEN conjunct2, THEN spec, THEN spec, THEN mp, OF g]
  note a = search_failure_fallback [where q = "''cats''" and world = http500World
      and s = fresh, THEN conjunct2, THEN mp, OF f]
  have "handleQuery_always http500World ''cats'' fresh = Returned () ?s1"
    using a by (simp add: fresh_def request_def)
  then show ?thesis using f t by simp
qed




lemma not_exit_cats: "\<not> exitRequested (Some ''cats'')" "\<not> exitRequested (Some ''hello'')"
  "\<not> exitRequested (Some ''search cats'')" "exitRequested (Some ''exit'')"
  by code_simp+

lemma not_search_hello: "\<not> includesStr (toLowerCase ''hello'') ''search''"
    "\<not> includesStr (toLowerCase ''cats'') ''search''"
  by code_simp+

lemmas down_defs = genDownWorld_def searchGenDownWorld_def

text \<open>
  C8 fails on the code. In the trigger script the general-answer generation is called
  outside every \<open>try\<close> for a query without the trigger word, and unguarded in the handler
  of the \<open>try\<close> for a query with it. With a generation endpoint that answers HTTP 500,
  the query \<open>hello\<close> ends \<open>main\<close> with the exception, and so does \<open>search cats\<close> when
  the search endpoint answers HTTP 500 as well: the next line is never read. The
  always-search script catches the same failure of the generation: its session goes on to
  the next line and ends at \<open>exit\<close>.
\<close>

theorem general_answer_failure_leaves_loop:
  "main_trigger (genDownWorld []) [Some ''hello'', Some ''cats''] fresh =
     Thrown \<lparr>modelEnsured = False, trace = [GenerateReq (generalPrompt ''hello'')]\<rparr> \<and>
   main_trigger searchGenDownWorld [Some ''search cats'', Some ''cats''] fresh =
     Thrown \<lparr>modelEnsured = False,
             trace = [SearchReq ''cats'', GenerateReq (generalPrompt ''search cats'')]\<rparr> \<and>
   main_always (genDownWorld [hit ''u1'']) [Some ''cats'', Some ''exit''] fresh =
     Returned ()
       \<lparr>modelEnsured = True,
        trace = [SearchReq ''cats'', PageReq ''u1'', TagsReq, EmbedReq (replicate 101 CHR ''x''),
                 EmbedReq ''cats'', GenerateReq (webPrompt ''cats'' [rankedGood ''u1''])]\<rparr>"
proof -
  have a: "handleQuery_trigger (genDownWorld []) ''hello'' fresh =
     Thrown \<lparr>modelEnsured = False, trace = [GenerateReq (generalPrompt ''hello'')]\<rparr>"
    using not_search_hello(1)
    by (simp add: handleQuery_trigger_def down_defs world_defs call_defs fresh_def)
  have b: "handleQuery_trigger searchGenDownWorld ''search cats'' fresh =
     Thrown \<lparr>modelEnsured = False,
             trace = [SearchReq ''cats'', GenerateReq (generalPrompt ''search cats'')]\<rparr>"
    using lower_search_cats
    by (simp add: handleQuery_trigger_def searchAndAnswer_def trim_cats down_defs world_defs
        call_defs fresh_def)
  have c: "handleQuery_always (genDownWorld [hit ''u1'']) ''cats'' fresh =
     Returned ()
       \<lparr>modelEnsured = True,
        trace = [SearchReq ''cats'', PageReq ''u1'', TagsReq, EmbedReq (replicate 101 CHR ''x''),
                 EmbedReq ''cats'', GenerateReq (webPrompt ''cats'' [rankedGood ''u1''])]\<rparr>"
    by (simp add: handleQuery_always_def collectSlice_def generateAnswer_def down_defs world_defs
        call_defs fresh_def MAX_CONTENT_LENGTH_def collapse_replicate isWhiteSpace_def
        rankSources_def sortBy_def withSimilarity_def cosineSimilarity_fold sample_defs
        rankedGood_def EMBEDDING_MODEL_def)
  show ?thesis using not_exit_cats by (simp add: a b c)
qed

lemma lower_Search_cats:
  "includesStr (toLowerCase ''Search cats'') ''search''" "\<not> includesStr ''Search cats'' ''search''"
  "\<not> includesStr (''re'' @ ''searc'') ''search''"
  by code_simp+

theorem trigger_search_query_witness:
  "(\<exists>evs. trace (ostate (handleQuery_trigger deadWorld ''Search cats'' fresh)) =
            SearchReq ''Search cats'' # evs) \<and>
   (\<exists>evs. trace (ostate (handleQuery_trigger deadWorld ''search cats'' fresh)) =
            SearchReq ''cats'' # evs) \<and>
   replaceFirst ''search'' [] ''research search'' = ''re search''"
proof -
  note t = trigger_search_query [where q = "''Search cats''" and world = deadWorld and s = fresh,
      THEN conjunct2, THEN conjunct2, THEN mp, OF conjI [OF lower_Search_cats(1) lower_Search_cats(2)],
      THEN conjunct2]
  note u = trigger_search_query [where q = "''search cats''" and world = deadWorld and s = fresh,
      THEN conjunct1, THEN mp, OF lower_search_cats]
  note v = trigger_search_query [where a = "''re''" and b = "'' search''",
      THEN conjunct2, THEN conjunct1, THEN mp, OF lower_Search_cats(3)]
  have tr: "trim ''Search cats'' = ''Search cats''" by (simp add: trim_def isWhiteSpace_def)
  show ?thesis using t u v by (simp add: tr trim_cats fresh_def)
qed

lemma exit_lines:
  "exitRequested (Some ''EXIT'')" "exitRequested (Some [])" "exitRequested None"
  by code_simp+

lemma queries_sample: "queriesBefore [Some ''cats'', Some ''Exit'', Some ''hello''] = [''cats'']"
  by code_simp

theorem loop_exit_condition_witness:
  "main_trigger deadWorld [Some ''EXIT'', Some ''cats''] fresh = Returned () fresh \<and>
   main_always deadWorld [Some [], Some ''cats''] fresh = Returned () fresh \<and>
   main_always deadWorld [None, Some ''cats''] fresh = Returned () fresh \<and>
   main_always deadWorld [Some ''cats'', Some ''exit''] fresh \<noteq> Returned () fresh \<and>
   main_always http500World [Some ''cats'', Some ''Exit'', Some ''hello''] fresh =
     Returned () \<lparr>modelEnsured = False, trace = [SearchReq ''cats'']\<rparr> \<and>
   main_trigger http500World [Some ''cats'', Some ''Exit'', Some ''hello''] fresh =
     main_trigger http500World [Some ''Exit'', Some ''hello'']
       \<lparr>modelEnsured = False, trace = [GenerateReq (generalPrompt ''cats'')]\<rparr>"
proof -
  let ?lines = "[Some ''cats'', Some ''Exit'', Some ''hello'']"
  have first: "main_trigger deadWorld [Some ''EXIT'', Some ''cats''] fresh = Returned () fresh \<and>
     main_always deadWorld [Some [], Some ''cats''] fresh = Returned () fresh \<and>
     main_always deadWorld [None, Some ''cats''] fresh = Returned () fresh \<and>
     main_always deadWorld [Some ''cats'', Some ''exit''] fresh \<noteq> Returned () fresh"
    using loop_exit_condition [where query = "Some ''EXIT''" and world = deadWorld
        and rest = "[Some ''cats'']" and s = fresh]
      loop_exit_condition [where query = "Some []" and world = deadWorld
        and rest = "[Some ''cats'']" and s = fresh]
      loop_exit_condition [where query = "None" and world = deadWorld
        and rest = "[Some ''cats'']" and s = fresh]
      loop_exit_condition [where query = "Some ''cats''" and world = deadWorld
        and rest = "[Some ''exit'']" and s = fresh]
      exit_lines not_exit_cats
    by blast
  have h: "handleQuery_always http500World ''cats'' fresh =
             Returned () \<lparr>modelEnsured = False, trace = [SearchReq ''cats'']\<rparr>"
    by (simp add: handleQuery_always_def world_defs call_defs fresh_def)
  note p = loop_exit_condition [where world = http500World and lines = ?lines and s = fresh,
      THEN conjunct2, THEN conjunct2, THEN conjunct2, THEN conjunct2, THEN conjunct1]
  have "main_always http500World ?lines fresh = passes (handleQuery_always http500World) [''cats''] fresh"
    using p by (simp only: queries_sample)
  also have "\<dots> = Returned () \<lparr>modelEnsured = False, trace = [SearchReq ''cats'']\<rparr>"
    by (simp add: h)
  finally have session: "main_always http500World ?lines fresh =
     Returned () \<lparr>modelEnsured = False, trace = [SearchReq ''cats'']\<rparr>" .
  have g: "handleQuery_trigger http500World ''cats'' fresh =
             Returned () \<lparr>modelEnsured = False, trace = [GenerateReq (generalPrompt ''cats'')]\<rparr>"
    using not_search_hello(2)
    by (simp add: handleQuery_trigger_def world_defs call_defs fresh_def)
  note n = loop_exit_condition [where world = http500World and q = "''cats''" and s = fresh
      and rest = "[Some ''Exit'', Some ''hello'']"
      and s' = "\<lparr>modelEnsured = False, trace = [GenerateReq (generalPrompt ''cats'')]\<rparr>",
      THEN conjunct2, THEN conjunct2, THEN conjunct2, THEN conjunct2, THEN conjunct2,
      THEN conjunct1, THEN mp, OF conjI [OF not_exit_cats(1) g]]
  show ?thesis using first session n by simp
qed

section \<open>A whole pass\<close>

text \<open>
  The end-to-end scenario of the specification, run on the model: the query
  \<open>search best pasta recipe\<close>, three results of which the second times out. The search is
  for \<open>best pasta recipe\<close>; the first embedding runs the model check; two sources are
  collected and ranked; the generation request carries the web-grounded prompt with both.
\<close>

lemma lower_pasta: "includesStr (toLowerCase ''search best pasta recipe'') ''search''"
  by code_simp

lemma trim_pasta: "trim '' best pasta recipe'' = ''best pasta recipe''"
  by (simp add: trim_def isWhiteSpace_def)

lemma pasta_scenario:
  "handleQuery_trigger (healthyWorld [hit ''u1'', hit ''u0'', hit ''u2''])
       ''search best pasta recipe'' fresh =
     Returned ()
       \<lparr>modelEnsured = True,
        trace = [SearchReq ''best pasta recipe'',
                 PageReq ''u1'', TagsReq, EmbedReq (replicate 101 CHR ''x''),
                 PageReq ''u0'',
                 PageReq ''u2'', EmbedReq (replicate 101 CHR ''x''),
                 EmbedReq ''search best pasta recipe'',
                 GenerateReq (webPrompt ''search best pasta recipe''
                                [rankedGood ''u1'', rankedGood ''u2''])]\<rparr>"
  using lower_pasta
  by (simp add: handleQuery_trigger_def searchAndAnswer_def trim_pasta collectSources_def
      collectLoop_scanFrom REQUIRED_LINKS_def world_defs call_defs fresh_def MAX_CONTENT_LENGTH_def
      collapse_replicate isWhiteSpace_def valid_def generateWebAnswer_def rankSources_def sortBy_def
      withSimilarity_def cosineSimilarity_fold sample_defs rankedGood_def
      emptySource_def EMBEDDING_MODEL_def)

end
